theory Spec2Isabelle
  imports Complex_Main "HOL-Library.Sublist"
begin

section \<open>Data model of \<open>src/api/api.ts\<close>\<close>

text \<open>
  Times are milliseconds. JavaScript numbers that carry device ids are integers; the two
  polling options are numbers of seconds, fractions and negative values included
  (\<open>0\<close> and \<open>undefined\<close> are both falsy).
\<close>

type_synonym time = nat

text \<open>
  \<open>CameraData\<close>: a camera record of the snapshot response. \<open>cd_ref\<close> is the identity of
  the JavaScript object (\<open>Array.prototype.includes\<close> compares objects by identity),
  \<open>cd_id\<close> its field \<open>id\<close>, \<open>cd_location_id\<close> its field \<open>location_id\<close>.
\<close>

record CameraData =
  cd_ref :: nat
  cd_id :: int
  cd_location_id :: string

text \<open>\<open>BaseStation\<close> and \<open>BeamBridge\<close>: only \<open>location_id\<close> is read.\<close>

record HubData =
  hub_location_id :: string

record UserLocation =
  ul_location_id :: string

record ActiveDing =
  ding_id :: int
  doorbot_id :: int

text \<open>
  \<open>RingAlarmOptions\<close>. \<open>locationIds = None\<close> stands for every value for which
  \<open>Array.isArray\<close> is false, \<open>undefined\<close> included.
\<close>

record RingAlarmOptions =
  locationIds :: "string list option"
  cameraStatusPollingSeconds :: "rat option"
  cameraDingsPollingSeconds :: "rat option"

text \<open>The two fields of \<open>RingRestClient\<close> that \<open>fetchRingDevices\<close> reads.\<close>

record RingRestClient =
  using2fa :: bool
  refreshToken :: "string option"

text \<open>JavaScript truthiness of an optional string and of an optional number.\<close>

definition truthy_string :: "string option \<Rightarrow> bool" where
  "truthy_string s = (case s of None \<Rightarrow> False | Some v \<Rightarrow> v \<noteq> [])"

definition truthy_number :: "rat option \<Rightarrow> bool" where
  "truthy_number n = (case n of None \<Rightarrow> False | Some v \<Rightarrow> v \<noteq> 0)"

section \<open>\<open>getHistory\<close>\<close>

text \<open>
  Template-literal rendering of an integer-valued number (plain decimal, which is what
  JavaScript prints for integers of magnitude below \<open>10^21\<close>).
\<close>

fun digits :: "nat \<Rightarrow> string" where
  "digits n = (if n < 10 then [''0123456789'' ! n]
               else digits (n div 10) @ [''0123456789'' ! (n mod 10)])"

declare digits.simps [simp del]

definition number_to_string :: "int \<Rightarrow> string" where
  "number_to_string i = (if i < 0 then CHR ''-'' # digits (nat (- i)) else digits (nat i))"

text \<open>
  \<open>getHistory(limit = 10, favoritesOnly = false)\<close>: an omitted argument is \<open>None\<close>.
  \<open>clientApi\<close> is imported from \<open>./rest-client\<close> and taken as a parameter. The result is
  the \<open>url\<close> handed to \<open>restClient.request\<close>.
\<close>

definition history_path :: "int \<Rightarrow> bool \<Rightarrow> string" where
  "history_path limit favoritesOnly =
     (let favoritesParam = (if favoritesOnly then ''&favorites=1'' else '''')
      in ''doorbots/history?limit='' @ number_to_string limit @ favoritesParam)"

definition getHistory :: "(string \<Rightarrow> string) \<Rightarrow> int option \<Rightarrow> bool option \<Rightarrow> string" where
  "getHistory clientApi limit_arg favoritesOnly_arg =
     (let limit = (case limit_arg of None \<Rightarrow> 10 | Some l \<Rightarrow> l);
          favoritesOnly = (case favoritesOnly_arg of None \<Rightarrow> False | Some f \<Rightarrow> f)
      in clientApi (history_path limit favoritesOnly))"

section \<open>The snapshot fetch: \<open>fetchRingDevices\<close>\<close>

text \<open>
  An asynchronous call either returns, rejects (the request failed) or ends the process
  (\<open>process.exit\<close>). Effects are threaded through a \<open>world\<close>: the urls requested so
  far and the lines written by \<open>console.error\<close>; the coordinators that
  \<open>listenForCameraUpdates\<close> has subscribed are added to it below.
\<close>

datatype 'a outcome = Returned 'a | Rejected | ProcessExit nat

record RingDevicesResponse =
  doorbots :: "CameraData list"
  authorized_doorbots :: "CameraData list"
  stickup_cams :: "CameraData list"
  base_stations :: "HubData list"
  beams_bridges :: "HubData list"

text \<open>The object returned by \<open>fetchRingDevices\<close>.\<close>

record RingDevices =
  res_doorbots :: "CameraData list"
  authorizedDoorbots :: "CameraData list"
  stickupCams :: "CameraData list"
  allCameras :: "CameraData list"
  baseStations :: "HubData list"
  beamBridges :: "HubData list"

text \<open>
  What the remote service answers: \<open>None\<close> is a failed request (the promise of
  \<open>restClient.request\<close> rejects).
\<close>

record server =
  user_locations_reply :: "UserLocation list option"
  ring_devices_reply :: "RingDevicesResponse option"

definition template_string :: "string option \<Rightarrow> string" where
  "template_string s = (case s of None \<Rightarrow> ''undefined'' | Some v \<Rightarrow> v)"

definition two_factor_messages :: "string option \<Rightarrow> string list" where
  "two_factor_messages token =
     [''Your Ring account is configured to use 2-factor authentication (2fa).'',
      ''Please change your Ring configuration to include '' @ [CHR 0x22] @ ''refreshToken''
        @ [CHR 0x22] @ '': '' @ [CHR 0x22] @ template_string token @ [CHR 0x22]]"

definition devices_of :: "RingDevicesResponse \<Rightarrow> RingDevices" where
  "devices_of r =
     \<lparr>res_doorbots = doorbots r,
      authorizedDoorbots = authorized_doorbots r,
      stickupCams = stickup_cams r,
      allCameras = doorbots r @ stickup_cams r @ authorized_doorbots r,
      baseStations = base_stations r,
      beamBridges = beams_bridges r\<rparr>"

section \<open>Devices and the registry\<close>

text \<open>
  Modelled from the spec: the \<open>RingCamera\<close> class (\<open>./ring-camera\<close> is not under
  \<open>src/\<close>). A Device is identified by a stable integer id, owns a mutable status record
  that the data sink overwrites, and records activity events through its event sink.
\<close>

record RingCamera =
  cam_id :: int
  cam_data :: CameraData
  isDoorbot :: bool
  cam_dings :: "ActiveDing list"

definition new_RingCamera :: "CameraData \<Rightarrow> bool \<Rightarrow> RingCamera" where
  "new_RingCamera initialData is_doorbot =
     \<lparr>cam_id = cd_id initialData, cam_data = initialData, isDoorbot = is_doorbot, cam_dings = []\<rparr>"

definition updateData :: "RingCamera \<Rightarrow> CameraData \<Rightarrow> RingCamera" where
  "updateData camera update = camera\<lparr>cam_data := update\<rparr>"

definition processActiveDing :: "RingCamera \<Rightarrow> ActiveDing \<Rightarrow> RingCamera" where
  "processActiveDing camera ding = camera\<lparr>cam_dings := cam_dings camera @ [ding]\<rparr>"

text \<open>
  \<open>camerasById\<close>: the \<open>reduce\<close> of lines 81-87. The registry maps an id to the position of
  the camera object in \<open>cameras\<close>; a later camera with the same id overwrites the entry.
\<close>

definition camerasById :: "RingCamera list \<Rightarrow> (int \<rightharpoonup> nat)" where
  "camerasById cameras =
     fold (\<lambda>(i, camera) byId. byId(cam_id camera \<mapsto> i)) (enumerate 0 cameras) Map.empty"

text \<open>The two \<open>forEach\<close> loops of the subscribers (lines 108-113 and 137-142).\<close>

definition dispatch_data :: "(int \<rightharpoonup> nat) \<Rightarrow> CameraData list \<Rightarrow> RingCamera list \<Rightarrow> RingCamera list" where
  "dispatch_data byId cameraData cameras =
     fold (\<lambda>data cs. case byId (cd_id data) of
                        None \<Rightarrow> cs
                      | Some i \<Rightarrow> cs[i := updateData (cs ! i) data]) cameraData cameras"

definition dispatch_dings :: "(int \<rightharpoonup> nat) \<Rightarrow> ActiveDing list \<Rightarrow> RingCamera list \<Rightarrow> RingCamera list" where
  "dispatch_dings byId activeDings cameras =
     fold (\<lambda>activeDing cs. case byId (doorbot_id activeDing) of
                        None \<Rightarrow> cs
                      | Some i \<Rightarrow> cs[i := processActiveDing (cs ! i) activeDing]) activeDings cameras"

section \<open>The two coordinators: \<open>listenForCameraUpdates\<close>\<close>

text \<open>
  The rxjs pipelines are written out as a timed state machine. Each operator keeps the
  state rxjs keeps for it:
  \<^item> \<open>throttleTime(500)\<close> (leading, not trailing): the time until which values are dropped;
  \<^item> \<open>debounceTime(d)\<close>: the due time of the pending timer, restarted by every value;
  \<^item> \<open>switchMap\<close>: the number of the fetch whose promise it is subscribed to; a newer
    trigger unsubscribes from the older promise, whose request stays in flight.
  A throttle that drops values until \<open>u\<close> admits a value arriving at \<open>u\<close> itself.
  \<open>snapshotFetches\<close>, \<open>dingsFetches\<close> and \<open>updateReceivedAt\<close> log the calls of
  \<open>fetchRingDevices\<close> (line 97), \<open>fetchActiveDings\<close> (line 127) and
  \<open>onUpdateReceived.next()\<close> (lines 102 and 117); fetch \<open>k\<close> is the \<open>k\<close>-th entry of its log.
\<close>

datatype source = Manual | Poll

record coordinator =
  clock :: time
  statusSeconds :: "rat option"
  dingsSeconds :: "rat option"
  registry :: "int \<rightharpoonup> nat"
  devices :: "RingCamera list"
  requestThrottledUntil :: time
  triggerThrottledUntil :: time
  statusDebounce :: "time option"
  statusSubscribed :: "nat option"
  statusOutstanding :: "nat list"
  snapshotFetches :: "(time \<times> source) list"
  updateReceivedAt :: "time list"
  dingsDebounce :: "time option"
  dingsSubscribed :: "nat option"
  dingsOutstanding :: "nat list"
  dingsFetches :: "time list"

text \<open>
  The delay handed to \<open>debounceTime\<close>: \<open>seconds * 1000\<close>. A timer waits a whole number
  of milliseconds; a delay below zero fires at once.
\<close>

definition interval_ms :: "rat option \<Rightarrow> nat" where
  "interval_ms seconds = (case seconds of None \<Rightarrow> 0 | Some n \<Rightarrow> nat \<lfloor>n * 1000\<rfloor>)"

text \<open>\<open>onUpdateReceived.next()\<close>: restarts the debounce timer of \<open>onPollForStatusUpdate\<close>,
  which is \<open>EMPTY\<close> when \<open>cameraStatusPollingSeconds\<close> is falsy.\<close>

definition onUpdateReceived_next :: "time \<Rightarrow> coordinator \<Rightarrow> coordinator" where
  "onUpdateReceived_next t s =
     (let s1 = s\<lparr>updateReceivedAt := updateReceivedAt s @ [t]\<rparr>
      in if truthy_number (statusSeconds s)
         then s1\<lparr>statusDebounce := Some (t + interval_ms (statusSeconds s))\<rparr>
         else s1)"

text \<open>The merged trigger stream: \<open>throttleTime(500)\<close> of line 95, then the \<open>switchMap\<close>
  of line 96, which calls \<open>fetchRingDevices\<close> and subscribes to its promise.\<close>

definition admit_trigger :: "source \<Rightarrow> time \<Rightarrow> coordinator \<Rightarrow> coordinator" where
  "admit_trigger src t s =
     (if t < triggerThrottledUntil s then s
      else s\<lparr>triggerThrottledUntil := t + 500,
             statusSubscribed := Some (length (snapshotFetches s)),
             statusOutstanding := statusOutstanding s @ [length (snapshotFetches s)],
             snapshotFetches := snapshotFetches s @ [(t, src)]\<rparr>)"

text \<open>A camera's \<open>onRequestUpdate\<close> emits: \<open>throttleTime(500)\<close> of line 76 first.\<close>

definition on_request_update :: "time \<Rightarrow> coordinator \<Rightarrow> coordinator" where
  "on_request_update t s =
     (if t < requestThrottledUntil s then s
      else admit_trigger Manual t (s\<lparr>requestThrottledUntil := t + 500\<rparr>))"

text \<open>The debounce timer of line 79 fires and emits into the merged stream.\<close>

definition on_status_timer :: "time \<Rightarrow> coordinator \<Rightarrow> coordinator" where
  "on_status_timer t s = admit_trigger Poll t (s\<lparr>statusDebounce := None\<rparr>)"

text \<open>
  The promise of snapshot fetch \<open>k\<close> settles with \<open>response\<close> (\<open>None\<close>: it rejected and
  \<open>catch\<close> made it \<open>null\<close>). Only the promise \<open>switchMap\<close> is subscribed to reaches the
  subscriber of lines 101-114.
\<close>

definition on_snapshot_settled :: "time \<Rightarrow> nat \<Rightarrow> RingDevices option \<Rightarrow> coordinator \<Rightarrow> coordinator" where
  "on_snapshot_settled t k response s =
     (let s1 = s\<lparr>statusOutstanding := removeAll k (statusOutstanding s)\<rparr>
      in if statusSubscribed s = Some k
         then (let s2 = onUpdateReceived_next t (s1\<lparr>statusSubscribed := None\<rparr>)
               in case response of
                    None \<Rightarrow> s2
                  | Some r \<Rightarrow> s2\<lparr>devices := dispatch_data (registry s2) (allCameras r) (devices s2)\<rparr>)
         else s1)"

text \<open>The debounce timer of line 125 fires; \<open>switchMap\<close> calls \<open>fetchActiveDings\<close>.\<close>

definition on_dings_timer :: "time \<Rightarrow> coordinator \<Rightarrow> coordinator" where
  "on_dings_timer t s =
     s\<lparr>dingsDebounce := None,
       dingsSubscribed := Some (length (dingsFetches s)),
       dingsOutstanding := dingsOutstanding s @ [length (dingsFetches s)],
       dingsFetches := dingsFetches s @ [t]\<rparr>"

text \<open>The promise of event fetch \<open>k\<close> settles; the subscriber of lines 130-143.\<close>

definition on_dings_settled :: "time \<Rightarrow> nat \<Rightarrow> ActiveDing list option \<Rightarrow> coordinator \<Rightarrow> coordinator" where
  "on_dings_settled t k activeDings s =
     (let s1 = s\<lparr>dingsOutstanding := removeAll k (dingsOutstanding s)\<rparr>
      in if dingsSubscribed s = Some k
         then (let s2 = s1\<lparr>dingsSubscribed := None,
                          dingsDebounce := Some (t + interval_ms (dingsSeconds s))\<rparr>
               in case activeDings of
                    None \<Rightarrow> s2
                  | Some ds \<Rightarrow> if ds = [] then s2
                              else s2\<lparr>devices := dispatch_dings (registry s2) ds (devices s2)\<rparr>)
         else s1)"

text \<open>
  \<open>listenForCameraUpdates(cameras)\<close> called at time \<open>t0\<close>. \<open>subscribed\<close> is the state
  after lines 93-146: both pipelines subscribed and both kicks (lines 117 and 145) done.
  With no cameras the function returns at line 90 and nothing is subscribed.
\<close>

definition subscribed :: "RingAlarmOptions \<Rightarrow> RingCamera list \<Rightarrow> time \<Rightarrow> coordinator" where
  "subscribed opts cameras t0 =
     (let s0 = \<lparr>clock = t0,
                statusSeconds = cameraStatusPollingSeconds opts,
                dingsSeconds = cameraDingsPollingSeconds opts,
                registry = camerasById cameras,
                devices = cameras,
                requestThrottledUntil = 0,
                triggerThrottledUntil = 0,
                statusDebounce = None,
                statusSubscribed = None,
                statusOutstanding = [],
                snapshotFetches = [],
                updateReceivedAt = [],
                dingsDebounce = None,
                dingsSubscribed = None,
                dingsOutstanding = [],
                dingsFetches = []\<rparr>;
          s1 = (if truthy_number (cameraStatusPollingSeconds opts)
                then onUpdateReceived_next t0 s0 else s0)
      in if truthy_number (cameraDingsPollingSeconds opts)
         then s1\<lparr>dingsDebounce := Some (t0 + interval_ms (cameraDingsPollingSeconds opts))\<rparr>
         else s1)"

definition listenForCameraUpdates :: "RingAlarmOptions \<Rightarrow> RingCamera list \<Rightarrow> time \<Rightarrow> coordinator option" where
  "listenForCameraUpdates opts cameras t0 =
     (if cameras = [] then None else Some (subscribed opts cameras t0))"

text \<open>
  What happens to a running coordinator. A timer fires at its due time; the other events
  carry the time at which they happen. An event is enabled when time does not run
  backwards, no pending timer is overdue at its time, and a settling fetch is in flight.
  A fetch that ends the process ends the run and is no event.
\<close>

datatype event =
    RequestUpdate time
  | StatusTimer
  | SnapshotSettled time nat "RingDevices option"
  | DingsTimer
  | DingsSettled time nat "ActiveDing list option"

definition not_overdue :: "time option \<Rightarrow> time \<Rightarrow> bool" where
  "not_overdue timer t = (case timer of None \<Rightarrow> True | Some due \<Rightarrow> t \<le> due)"

definition on_time :: "coordinator \<Rightarrow> time \<Rightarrow> bool" where
  "on_time s t = (clock s \<le> t \<and> not_overdue (statusDebounce s) t \<and> not_overdue (dingsDebounce s) t)"

fun step :: "coordinator \<Rightarrow> event \<Rightarrow> coordinator option" where
  "step s (RequestUpdate t) =
     (if on_time s t then Some (on_request_update t (s\<lparr>clock := t\<rparr>)) else None)"
| "step s StatusTimer =
     (case statusDebounce s of
        None \<Rightarrow> None
      | Some due \<Rightarrow> if on_time s due then Some (on_status_timer due (s\<lparr>clock := due\<rparr>)) else None)"
| "step s (SnapshotSettled t k response) =
     (if on_time s t \<and> k \<in> set (statusOutstanding s)
      then Some (on_snapshot_settled t k response (s\<lparr>clock := t\<rparr>)) else None)"
| "step s DingsTimer =
     (case dingsDebounce s of
        None \<Rightarrow> None
      | Some due \<Rightarrow> if on_time s due then Some (on_dings_timer due (s\<lparr>clock := due\<rparr>)) else None)"
| "step s (DingsSettled t k activeDings) =
     (if on_time s t \<and> k \<in> set (dingsOutstanding s)
      then Some (on_dings_settled t k activeDings (s\<lparr>clock := t\<rparr>)) else None)"

fun run :: "event list \<Rightarrow> coordinator \<Rightarrow> coordinator option" where
  "run [] s = Some s"
| "run (e # es) s = (case step s e of None \<Rightarrow> None | Some s' \<Rightarrow> run es s')"

section \<open>The directory builder\<close>

record world =
  requests :: "string list"
  console_error :: "string list"
  coordinators :: "coordinator list"

text \<open>\<open>await\<close>: continue with the value of a call that returned.\<close>

fun await :: "'a outcome \<times> world \<Rightarrow> ('a \<Rightarrow> world \<Rightarrow> 'b outcome \<times> world) \<Rightarrow> 'b outcome \<times> world" where
  "await (Returned x, w) continue = continue x w"
| "await (Rejected, w) continue = (Rejected, w)"
| "await (ProcessExit code, w) continue = (ProcessExit code, w)"

text \<open>
  \<open>fetchRingDevices\<close> (lines 28-61). \<open>clientApi\<close> is imported from \<open>./rest-client\<close> and
  taken as a parameter; \<open>restClient\<close> holds the two fields as they are after the request.
\<close>

definition fetchRingDevices ::
  "(string \<Rightarrow> string) \<Rightarrow> RingRestClient \<Rightarrow> server \<Rightarrow> world \<Rightarrow> RingDevices outcome \<times> world" where
  "fetchRingDevices clientApi restClient srv w =
     (let w1 = w\<lparr>requests := requests w @ [clientApi ''ring_devices'']\<rparr>
      in case ring_devices_reply srv of
           None \<Rightarrow> (Rejected, w1)
         | Some r \<Rightarrow>
             if using2fa restClient \<and> truthy_string (refreshToken restClient)
             then (ProcessExit 1,
                   w1\<lparr>console_error := console_error w1 @ two_factor_messages (refreshToken restClient)\<rparr>)
             else (Returned (devices_of r), w1))"

definition fetchRawLocations :: "server \<Rightarrow> world \<Rightarrow> UserLocation list outcome \<times> world" where
  "fetchRawLocations srv w =
     (let w1 = w\<lparr>requests := requests w @ [''https://app.ring.com/rhq/v1/devices/v1/locations'']\<rparr>
      in case user_locations_reply srv of
           None \<Rightarrow> (Rejected, w1)
         | Some rawLocations \<Rightarrow> (Returned rawLocations, w1))"

text \<open>
  Modelled from the spec: the \<open>Location\<close> class (\<open>./location\<close> is not under \<open>src/\<close>), a
  container of the Devices handed to its constructor plus the hub-presence flag.
\<close>

record Location =
  locationDetails :: UserLocation
  loc_cameras :: "RingCamera list"
  hasHubs :: bool

text \<open>\<open>Array.prototype.includes\<close> on an array of objects: identity of the object.\<close>

definition includes_object :: "CameraData list \<Rightarrow> CameraData \<Rightarrow> bool" where
  "includes_object xs data = list_ex (\<lambda>x. cd_ref x = cd_ref data) xs"

definition build_cameras :: "RingDevices \<Rightarrow> RingCamera list" where
  "build_cameras devs =
     map (\<lambda>data. new_RingCamera data
                   (includes_object (res_doorbots devs) data \<or> includes_object (authorizedDoorbots devs) data))
         (allCameras devs)"

definition location_allowed :: "RingAlarmOptions \<Rightarrow> UserLocation \<Rightarrow> bool" where
  "location_allowed opts location =
     (case locationIds opts of
        None \<Rightarrow> True
      | Some ids \<Rightarrow> ul_location_id location \<in> set ids)"

definition build_locations ::
  "RingAlarmOptions \<Rightarrow> UserLocation list \<Rightarrow> RingDevices \<Rightarrow> RingCamera list \<Rightarrow> Location list" where
  "build_locations opts rawLocations devs cameras =
     (let locationIdsWithHubs = map hub_location_id (baseStations devs @ beamBridges devs)
      in map (\<lambda>location.
                \<lparr>locationDetails = location,
                 loc_cameras = filter (\<lambda>x. cd_location_id (cam_data x) = ul_location_id location) cameras,
                 hasHubs = (ul_location_id location \<in> set locationIdsWithHubs)\<rparr>)
             (filter (location_allowed opts) rawLocations))"

text \<open>\<open>fetchAndBuildLocations\<close> (lines 157-197); \<open>t0\<close> is the time at which line 194 runs.\<close>

definition fetchAndBuildLocations ::
  "(string \<Rightarrow> string) \<Rightarrow> RingAlarmOptions \<Rightarrow> RingRestClient \<Rightarrow> server \<Rightarrow> time \<Rightarrow> world
     \<Rightarrow> Location list outcome \<times> world" where
  "fetchAndBuildLocations clientApi opts restClient srv t0 w =
     await (fetchRawLocations srv w) (\<lambda>rawLocations w1.
     await (fetchRingDevices clientApi restClient srv w1) (\<lambda>devs w2.
       (let cameras = build_cameras devs;
            locations = build_locations opts rawLocations devs cameras;
            w3 = (case listenForCameraUpdates opts cameras t0 of
                    None \<Rightarrow> w2
                  | Some c \<Rightarrow> w2\<lparr>coordinators := coordinators w2 @ [c]\<rparr>)
        in (Returned locations, w3))))"

section \<open>The \<open>RingApi\<close> object\<close>

text \<open>
  The field initialiser of line 24 calls \<open>fetchAndBuildLocations\<close> once, when the object is
  constructed, and stores its promise; \<open>getLocations\<close> returns that stored promise.
\<close>

record RingApi =
  api_options :: RingAlarmOptions
  api_restClient :: RingRestClient
  locations :: "Location list outcome"

definition new_RingApi ::
  "(string \<Rightarrow> string) \<Rightarrow> RingAlarmOptions \<Rightarrow> RingRestClient \<Rightarrow> server \<Rightarrow> time \<Rightarrow> world
     \<Rightarrow> RingApi \<times> world" where
  "new_RingApi clientApi opts restClient srv t0 w =
     (case fetchAndBuildLocations clientApi opts restClient srv t0 w of
        (result, w') \<Rightarrow>
          (\<lparr>api_options = opts, api_restClient = restClient, locations = result\<rparr>, w'))"

definition getLocations :: "RingApi \<Rightarrow> world \<Rightarrow> Location list outcome \<times> world" where
  "getLocations api w = (locations api, w)"

section \<open>Invariants of a running coordinator\<close>



definition poll_inv :: "time \<Rightarrow> coordinator \<Rightarrow> bool" where
  "poll_inv t0 s \<longleftrightarrow>
     truthy_number (statusSeconds s)
     \<and> t0 \<le> clock s
     \<and> sorted (updateReceivedAt s)
     \<and> (\<forall>r \<in> set (updateReceivedAt s). t0 \<le> r \<and> r \<le> clock s)
     \<and> (\<forall>due. statusDebounce s = Some due \<longrightarrow>
            updateReceivedAt s \<noteq> []
            \<and> due = last (updateReceivedAt s) + interval_ms (statusSeconds s))
     \<and> (\<forall>a \<in> set (snapshotFetches s). fst a \<le> clock s)
     \<and> (\<forall>a \<in> set (snapshotFetches s). snd a = Poll \<longrightarrow>
            t0 + interval_ms (statusSeconds s) \<le> fst a
            \<and> fst a - interval_ms (statusSeconds s) \<in> set (updateReceivedAt s)
            \<and> (\<forall>r \<in> set (updateReceivedAt s).
                  r \<le> fst a - interval_ms (statusSeconds s) \<or> fst a \<le> r))"




section \<open>Example inputs\<close>

text \<open>Concrete inputs at which the theorems below are instantiated.\<close>

definition cam_front :: CameraData where
  "cam_front = \<lparr>cd_ref = 1, cd_id = 7, cd_location_id = ''L1''\<rparr>"

definition cam_yard :: CameraData where
  "cam_yard = \<lparr>cd_ref = 2, cd_id = 8, cd_location_id = ''L2''\<rparr>"

definition example_snapshot :: RingDevicesResponse where
  "example_snapshot = \<lparr>doorbots = [cam_front], authorized_doorbots = [],
                        stickup_cams = [cam_yard], base_stations = [],
                        beams_bridges = [\<lparr>hub_location_id = ''L2''\<rparr>]\<rparr>"

definition example_server :: server where
  "example_server =
     \<lparr>user_locations_reply = Some [\<lparr>ul_location_id = ''L1''\<rparr>, \<lparr>ul_location_id = ''L2''\<rparr>],
      ring_devices_reply = Some example_snapshot\<rparr>"

definition example_client :: RingRestClient where
  "example_client = \<lparr>using2fa = False, refreshToken = Some ''r3fr3sh''\<rparr>"

definition empty_world :: world where
  "empty_world = \<lparr>requests = [], console_error = [], coordinators = []\<rparr>"

definition front_camera :: RingCamera where
  "front_camera = new_RingCamera cam_front True"

definition unknown_record :: CameraData where
  "unknown_record = \<lparr>cd_ref = 9, cd_id = 99, cd_location_id = ''L9''\<rparr>"

definition unknown_ding :: ActiveDing where
  "unknown_ding = \<lparr>ding_id = 1, doorbot_id = 99\<rparr>"

definition only_cameras :: "CameraData list \<Rightarrow> RingDevices" where
  "only_cameras cs = \<lparr>res_doorbots = cs, authorizedDoorbots = [], stickupCams = [], allCameras = cs,
                       baseStations = [], beamBridges = []\<rparr>"

definition moved_record :: CameraData where
  "moved_record = \<lparr>cd_ref = 3, cd_id = 7, cd_location_id = ''L2''\<rparr>"

definition front_ding :: ActiveDing where
  "front_ding = \<lparr>ding_id = 2, doorbot_id = 7\<rparr>"

definition example_options :: "string list option \<Rightarrow> rat option \<Rightarrow> rat option \<Rightarrow> RingAlarmOptions" where
  "example_options ids status dings =
     \<lparr>locationIds = ids, cameraStatusPollingSeconds = status, cameraDingsPollingSeconds = dings\<rparr>"


definition polling_options :: RingAlarmOptions where
  "polling_options = example_options None (Some 1) (Some 1)"

section \<open>Properties of \<open>getHistory\<close>\<close>

lemma digits_chars: "set (digits n) \<subseteq> set ''0123456789''"
proof (induction n rule: digits.induct)
  case (1 n)
  have d: "''0123456789'' ! (k mod 10) \<in> set ''0123456789''" for k :: nat
    by (rule nth_mem) simp
  show ?case
  proof (cases "n < 10")
    case True
    then have "n mod 10 = n" by simp
    with d [of n] True show ?thesis
      by (subst digits.simps) simp
  next
    case False
    with "1.IH" d [of n] show ?thesis
      by (subst digits.simps) simp
  qed
qed

lemma number_to_string_no_amp: "CHR ''&'' \<notin> set (number_to_string i)"
  using digits_chars [of "nat i"] digits_chars [of "nat (- i)"]
  by (auto simp: number_to_string_def)

lemma sublist_set: "sublist xs ys \<Longrightarrow> set xs \<subseteq> set ys"
  by (auto simp: sublist_def)

lemma no_favorites_in_plain_path:
  "\<not> sublist ''&favorites=1'' (''doorbots/history?limit='' @ number_to_string i)"
proof
  assume "sublist ''&favorites=1'' (''doorbots/history?limit='' @ number_to_string i)"
  then have "set ''&favorites=1'' \<subseteq> set (''doorbots/history?limit='' @ number_to_string i)"
    by (rule sublist_set)
  then have "CHR ''&'' \<in> set (''doorbots/history?limit='' @ number_to_string i)"
    by auto
  then show False
    using number_to_string_no_amp [of i] by simp
qed

text \<open>
  C10. \<open>getHistory\<close> defaults \<open>limit\<close> to 10 and \<open>favoritesOnly\<close> to false; the path it
  hands to \<open>clientApi\<close> is \<open>doorbots/history?limit=\<close> followed by the given limit and then
  by \<open>&favorites=1\<close> exactly when \<open>favoritesOnly\<close> is true, and the fragment
  \<open>&favorites=1\<close> occurs in that path if and only if \<open>favoritesOnly\<close> is true.
\<close>

theorem getHistory_url:
  "getHistory clientApi None None = getHistory clientApi (Some 10) (Some False)
   \<and> getHistory clientApi (Some limit) None = getHistory clientApi (Some limit) (Some False)
   \<and> getHistory clientApi None (Some fav) = getHistory clientApi (Some 10) (Some fav)
   \<and> getHistory clientApi (Some limit) (Some fav) = clientApi (history_path limit fav)
   \<and> history_path limit fav =
       ''doorbots/history?limit='' @ number_to_string limit @ (if fav then ''&favorites=1'' else '''')
   \<and> (sublist ''&favorites=1'' (history_path limit fav) \<longleftrightarrow> fav)"
proof -
  have "sublist ''&favorites=1'' (history_path limit True)"
    unfolding history_path_def Let_def sublist_def
    by (intro exI [of _ "''doorbots/history?limit='' @ number_to_string limit"] exI [of _ "[]"]) simp
  moreover have "\<not> sublist ''&favorites=1'' (history_path limit False)"
    using no_favorites_in_plain_path [of limit] by (simp add: history_path_def)
  ultimately have "sublist ''&favorites=1'' (history_path limit fav) \<longleftrightarrow> fav"
    by (cases fav) simp_all
  then show ?thesis
    by (simp add: getHistory_def history_path_def)
qed

section \<open>Properties of the directory builder\<close>

lemma fetchRingDevices_cases:
  "fetchRingDevices capi rc srv w =
     (case ring_devices_reply srv of
        None \<Rightarrow> (Rejected, w\<lparr>requests := requests w @ [capi ''ring_devices'']\<rparr>)
      | Some r \<Rightarrow>
          if using2fa rc \<and> truthy_string (refreshToken rc)
          then (ProcessExit 1, w\<lparr>requests := requests w @ [capi ''ring_devices''],
                                 console_error := console_error w @ two_factor_messages (refreshToken rc)\<rparr>)
          else (Returned (devices_of r), w\<lparr>requests := requests w @ [capi ''ring_devices'']\<rparr>))"
  by (auto simp add: fetchRingDevices_def Let_def split: option.splits)

lemma fetchRawLocations_cases:
  "fetchRawLocations srv w =
     (case user_locations_reply srv of
        None \<Rightarrow> (Rejected, w\<lparr>requests := requests w @ [''https://app.ring.com/rhq/v1/devices/v1/locations'']\<rparr>)
      | Some raw \<Rightarrow> (Returned raw, w\<lparr>requests := requests w @ [''https://app.ring.com/rhq/v1/devices/v1/locations'']\<rparr>))"
  by (auto simp add: fetchRawLocations_def Let_def split: option.splits)

lemma build_returned:
  assumes "user_locations_reply srv = Some raw" and "ring_devices_reply srv = Some r"
    and "\<not> (using2fa rc \<and> truthy_string (refreshToken rc))"
  shows "fetchAndBuildLocations capi opts rc srv t0 w =
     (Returned (build_locations opts raw (devices_of r) (build_cameras (devices_of r))),
      (case listenForCameraUpdates opts (build_cameras (devices_of r)) t0 of
         None \<Rightarrow> w\<lparr>requests := requests w @ [''https://app.ring.com/rhq/v1/devices/v1/locations'', capi ''ring_devices'']\<rparr>
       | Some c \<Rightarrow> w\<lparr>requests := requests w @ [''https://app.ring.com/rhq/v1/devices/v1/locations'', capi ''ring_devices''],
                    coordinators := coordinators w @ [c]\<rparr>))"
  using assms
  by (simp add: fetchAndBuildLocations_def fetchRingDevices_cases fetchRawLocations_cases Let_def
      split: option.splits)

lemma build_exit:
  assumes "user_locations_reply srv = Some raw" and "ring_devices_reply srv = Some r"
    and "using2fa rc \<and> truthy_string (refreshToken rc)"
  shows "fetchAndBuildLocations capi opts rc srv t0 w =
     (ProcessExit 1,
      w\<lparr>requests := requests w @ [''https://app.ring.com/rhq/v1/devices/v1/locations'', capi ''ring_devices''],
        console_error := console_error w @ two_factor_messages (refreshToken rc)\<rparr>)"
  using assms
  by (simp add: fetchAndBuildLocations_def fetchRingDevices_cases fetchRawLocations_cases Let_def)

lemma build_rejected:
  assumes "user_locations_reply srv = None \<or> ring_devices_reply srv = None"
  shows "fst (fetchAndBuildLocations capi opts rc srv t0 w) = Rejected"
  using assms
  by (auto simp add: fetchAndBuildLocations_def fetchRingDevices_cases fetchRawLocations_cases Let_def
      split: option.splits)

lemma build_returned_inv:
  assumes "fetchAndBuildLocations capi opts rc srv t0 w = (Returned locs, w')"
  shows "\<exists>raw r. user_locations_reply srv = Some raw \<and> ring_devices_reply srv = Some r
           \<and> \<not> (using2fa rc \<and> truthy_string (refreshToken rc))
           \<and> locs = build_locations opts raw (devices_of r) (build_cameras (devices_of r))"
proof (cases "user_locations_reply srv = None \<or> ring_devices_reply srv = None")
  case True
  from build_rejected [OF True, of capi opts rc t0 w] assms show ?thesis by simp
next
  case False
  then obtain raw r where rr: "user_locations_reply srv = Some raw" "ring_devices_reply srv = Some r"
    by auto
  show ?thesis
  proof (cases "using2fa rc \<and> truthy_string (refreshToken rc)")
    case True
    from build_exit [OF rr True, of capi opts t0 w] assms show ?thesis by simp
  next
    case False
    from build_returned [OF rr False, of capi opts t0 w] assms rr False show ?thesis by simp
  qed
qed

lemma build_locations_details:
  "map locationDetails (build_locations opts raw devs cams) = filter (location_allowed opts) raw"
  by (simp add: build_locations_def Let_def comp_def)

lemma build_locations_cameras:
  "loc \<in> set (build_locations opts raw devs cams) \<Longrightarrow>
     loc_cameras loc = filter (\<lambda>x. cd_location_id (cam_data x) = ul_location_id (locationDetails loc)) cams"
  by (auto simp add: build_locations_def Let_def)

lemma location_allowed_iff:
  "location_allowed opts l \<longleftrightarrow>
     (case locationIds opts of None \<Rightarrow> True | Some ids \<Rightarrow> ul_location_id l \<in> set ids)"
  by (simp add: location_allowed_def split: option.splits)

lemma map_cam_data_build_cameras: "map cam_data (build_cameras devs) = allCameras devs"
  by (simp add: build_cameras_def new_RingCamera_def comp_def)

lemma map_cam_id_build_cameras: "map cam_id (build_cameras devs) = map cd_id (allCameras devs)"
  by (simp add: build_cameras_def new_RingCamera_def comp_def)

lemma count_list_append: "count_list (xs @ ys) x = count_list xs x + count_list ys x"
  by (induction xs) auto


text \<open>
  C1 (as amended). \<open>fetchRingDevices\<close> ends the process with exit code 1 exactly when the
  snapshot request succeeded, the rest client reports two-factor authentication and its
  refresh token is truthy, that is, available; it rejects exactly when the request
  failed and returns normally in every other case. The directory build ends the process
  exactly when, in addition, the location request succeeded; it then has written the two
  diagnostic lines and has registered no coordinator.
\<close>

theorem two_factor_exit:
  "(fst (fetchRingDevices capi rc srv w) = ProcessExit 1
      \<longleftrightarrow> ring_devices_reply srv \<noteq> None \<and> using2fa rc \<and> truthy_string (refreshToken rc))
   \<and> (fst (fetchRingDevices capi rc srv w) = Rejected \<longleftrightarrow> ring_devices_reply srv = None)
   \<and> ((\<exists>devs. fst (fetchRingDevices capi rc srv w) = Returned devs)
      \<longleftrightarrow> ring_devices_reply srv \<noteq> None \<and> \<not> (using2fa rc \<and> truthy_string (refreshToken rc)))
   \<and> (fst (fetchAndBuildLocations capi opts rc srv t0 w) = ProcessExit 1
      \<longleftrightarrow> user_locations_reply srv \<noteq> None \<and> ring_devices_reply srv \<noteq> None
          \<and> using2fa rc \<and> truthy_string (refreshToken rc))
   \<and> (\<forall>code. fst (fetchAndBuildLocations capi opts rc srv t0 w) = ProcessExit code \<longrightarrow>
         code = 1
         \<and> coordinators (snd (fetchAndBuildLocations capi opts rc srv t0 w)) = coordinators w
         \<and> console_error (snd (fetchAndBuildLocations capi opts rc srv t0 w))
             = console_error w @ two_factor_messages (refreshToken rc))"
proof -
  have a: "fst (fetchRingDevices capi rc srv w) = ProcessExit 1
      \<longleftrightarrow> ring_devices_reply srv \<noteq> None \<and> using2fa rc \<and> truthy_string (refreshToken rc)"
    by (auto simp add: fetchRingDevices_cases split: option.splits)
  have b: "fst (fetchRingDevices capi rc srv w) = Rejected \<longleftrightarrow> ring_devices_reply srv = None"
    by (auto simp add: fetchRingDevices_cases split: option.splits)
  have c: "(\<exists>devs. fst (fetchRingDevices capi rc srv w) = Returned devs)
      \<longleftrightarrow> ring_devices_reply srv \<noteq> None \<and> \<not> (using2fa rc \<and> truthy_string (refreshToken rc))"
    by (auto simp add: fetchRingDevices_cases split: option.splits)
  have d: "fst (fetchAndBuildLocations capi opts rc srv t0 w) = ProcessExit 1
      \<longleftrightarrow> user_locations_reply srv \<noteq> None \<and> ring_devices_reply srv \<noteq> None
          \<and> using2fa rc \<and> truthy_string (refreshToken rc)"
  proof (cases "user_locations_reply srv = None \<or> ring_devices_reply srv = None")
    case True
    then show ?thesis using build_rejected [OF True, of capi opts rc t0 w] by auto
  next
    case False
    then obtain raw r where "user_locations_reply srv = Some raw" "ring_devices_reply srv = Some r"
      by auto
    then show ?thesis
      using build_exit [of srv raw r rc capi opts t0 w] build_returned [of srv raw r rc capi opts t0 w]
      by (cases "using2fa rc \<and> truthy_string (refreshToken rc)") auto
  qed
  have e: "code = 1
         \<and> coordinators (snd (fetchAndBuildLocations capi opts rc srv t0 w)) = coordinators w
         \<and> console_error (snd (fetchAndBuildLocations capi opts rc srv t0 w))
             = console_error w @ two_factor_messages (refreshToken rc)"
    if x: "fst (fetchAndBuildLocations capi opts rc srv t0 w) = ProcessExit code" for code
  proof (cases "user_locations_reply srv = None \<or> ring_devices_reply srv = None")
    case True
    then show ?thesis using build_rejected [OF True, of capi opts rc t0 w] x by auto
  next
    case False
    then obtain raw r where "user_locations_reply srv = Some raw" "ring_devices_reply srv = Some r"
      by auto
    then show ?thesis
      using build_exit [of srv raw r rc capi opts t0 w] build_returned [of srv raw r rc capi opts t0 w] x
      by (cases "using2fa rc \<and> truthy_string (refreshToken rc)") auto
  qed
  from a b c d e show ?thesis by blast
qed

theorem two_factor_exit_witness:
  "fst (fetchAndBuildLocations (\<lambda>p. p) \<lparr>locationIds = None, cameraStatusPollingSeconds = None, cameraDingsPollingSeconds = None\<rparr>
         \<lparr>using2fa = True, refreshToken = Some ''r3fr3sh''\<rparr>
         \<lparr>user_locations_reply = Some [],
          ring_devices_reply = Some \<lparr>doorbots = [], authorized_doorbots = [], stickup_cams = [],
                                     base_stations = [], beams_bridges = []\<rparr>\<rparr>
         0 \<lparr>requests = [], console_error = [], coordinators = []\<rparr>) = ProcessExit 1
   \<and> coordinators (snd (fetchAndBuildLocations (\<lambda>p. p) \<lparr>locationIds = None, cameraStatusPollingSeconds = None, cameraDingsPollingSeconds = None\<rparr>
         \<lparr>using2fa = True, refreshToken = Some ''r3fr3sh''\<rparr>
         \<lparr>user_locations_reply = Some [],
          ring_devices_reply = Some \<lparr>doorbots = [], authorized_doorbots = [], stickup_cams = [],
                                     base_stations = [], beams_bridges = []\<rparr>\<rparr>
         0 \<lparr>requests = [], console_error = [], coordinators = []\<rparr>)) = []"
  (is "fst ?F = _ \<and> _")
proof -
  let ?rc = "\<lparr>using2fa = True, refreshToken = Some ''r3fr3sh''\<rparr>"
  let ?srv = "\<lparr>user_locations_reply = Some [],
          ring_devices_reply = Some \<lparr>doorbots = [], authorized_doorbots = [], stickup_cams = [],
                                     base_stations = [], beams_bridges = []\<rparr>\<rparr>"
  let ?w = "\<lparr>requests = [], console_error = [], coordinators = []\<rparr>"
  let ?opts = "\<lparr>locationIds = None, cameraStatusPollingSeconds = None, cameraDingsPollingSeconds = None\<rparr>"
  note t = two_factor_exit [of "\<lambda>p. p" ?rc ?srv ?w ?opts 0]
  have pre: "user_locations_reply ?srv \<noteq> None \<and> ring_devices_reply ?srv \<noteq> None
          \<and> using2fa ?rc \<and> truthy_string (refreshToken ?rc)"
    by (simp add: truthy_string_def)
  have x: "fst ?F = ProcessExit 1"
    using t [THEN conjunct2, THEN conjunct2, THEN conjunct2, THEN conjunct1] pre by (rule iffD2)
  have "coordinators (snd ?F) = coordinators ?w"
    using t [THEN conjunct2, THEN conjunct2, THEN conjunct2, THEN conjunct2, rule_format, OF x]
    by (rule conjunct2 [THEN conjunct1])
  then have "coordinators (snd ?F) = []"
    by (simp only: world.simps)
  with x show ?thesis by (rule conjI)
qed

theorem two_factor_exit_counterexample:
  "fst (fetchRingDevices (\<lambda>p. p) \<lparr>using2fa = True, refreshToken = None\<rparr>
         \<lparr>user_locations_reply = Some [],
          ring_devices_reply = Some \<lparr>doorbots = [], authorized_doorbots = [], stickup_cams = [],
                                     base_stations = [], beams_bridges = []\<rparr>\<rparr>
         \<lparr>requests = [], console_error = [], coordinators = []\<rparr>)
     = Returned \<lparr>res_doorbots = [], authorizedDoorbots = [], stickupCams = [], allCameras = [],
                 baseStations = [], beamBridges = []\<rparr>
   \<and> fst (fetchRingDevices (\<lambda>p. p) \<lparr>using2fa = True, refreshToken = Some ''r3fr3sh''\<rparr>
         \<lparr>user_locations_reply = Some [],
          ring_devices_reply = Some \<lparr>doorbots = [], authorized_doorbots = [], stickup_cams = [],
                                     base_stations = [], beams_bridges = []\<rparr>\<rparr>
         \<lparr>requests = [], console_error = [], coordinators = []\<rparr>)
     = ProcessExit 1"
  by (simp add: fetchRingDevices_def truthy_string_def devices_of_def)

text \<open>
  C2 (as amended). The camera set holds one Device per entry of
  \<open>doorbots.concat(stickupCams, authorizedDoorbots)\<close>, in that order and without
  deduplication: a record (or an id) occurring in two of the lists yields one Device per
  occurrence.
\<close>

theorem one_device_per_occurrence:
  "map cam_data (build_cameras (devices_of r)) = doorbots r @ stickup_cams r @ authorized_doorbots r
   \<and> length (build_cameras (devices_of r))
       = length (doorbots r) + length (stickup_cams r) + length (authorized_doorbots r)
   \<and> count_list (map cam_data (build_cameras (devices_of r))) d
       = count_list (doorbots r) d + count_list (stickup_cams r) d + count_list (authorized_doorbots r) d
   \<and> count_list (map cam_id (build_cameras (devices_of r))) i
       = count_list (map cd_id (doorbots r)) i + count_list (map cd_id (stickup_cams r)) i
         + count_list (map cd_id (authorized_doorbots r)) i"
proof -
  have a: "map cam_data (build_cameras (devices_of r)) = doorbots r @ stickup_cams r @ authorized_doorbots r"
    by (simp add: map_cam_data_build_cameras devices_of_def)
  have b: "map cam_id (build_cameras (devices_of r))
         = map cd_id (doorbots r) @ map cd_id (stickup_cams r) @ map cd_id (authorized_doorbots r)"
    by (simp add: map_cam_id_build_cameras devices_of_def)
  have "length (map cam_data (build_cameras (devices_of r)))
       = length (doorbots r) + length (stickup_cams r) + length (authorized_doorbots r)"
    unfolding a by simp
  then have c: "length (build_cameras (devices_of r))
       = length (doorbots r) + length (stickup_cams r) + length (authorized_doorbots r)"
    by simp
  show ?thesis
    unfolding a b using c by (simp add: count_list_append)
qed

theorem one_device_per_occurrence_counterexample:
  "build_cameras (devices_of
       \<lparr>doorbots = [\<lparr>cd_ref = 1, cd_id = 7, cd_location_id = ''L1''\<rparr>],
        authorized_doorbots = [\<lparr>cd_ref = 1, cd_id = 7, cd_location_id = ''L1''\<rparr>],
        stickup_cams = [], base_stations = [], beams_bridges = []\<rparr>)
   = [\<lparr>cam_id = 7, cam_data = \<lparr>cd_ref = 1, cd_id = 7, cd_location_id = ''L1''\<rparr>,
        isDoorbot = True, cam_dings = []\<rparr>,
      \<lparr>cam_id = 7, cam_data = \<lparr>cd_ref = 1, cd_id = 7, cd_location_id = ''L1''\<rparr>,
        isDoorbot = True, cam_dings = []\<rparr>]"
  by (simp add: build_cameras_def devices_of_def new_RingCamera_def includes_object_def)

text \<open>
  C9. When the build returns, the kept locations are exactly the raw locations whose
  \<open>location_id\<close> is in \<open>locationIds\<close>, in their order; without \<open>locationIds\<close> every raw
  location is kept; and every Location owns exactly the Devices whose \<open>location_id\<close>
  equals its own.
\<close>

theorem allow_list_filter:
  assumes "fetchAndBuildLocations capi opts rc srv t0 w = (Returned locs, w')"
  shows "\<exists>raw r. user_locations_reply srv = Some raw \<and> ring_devices_reply srv = Some r
     \<and> map locationDetails locs
         = filter (\<lambda>l. case locationIds opts of None \<Rightarrow> True
                                            | Some ids \<Rightarrow> ul_location_id l \<in> set ids) raw
     \<and> (locationIds opts = None \<longrightarrow> map locationDetails locs = raw)
     \<and> (\<forall>loc \<in> set locs.
           loc_cameras loc = filter (\<lambda>x. cd_location_id (cam_data x) = ul_location_id (locationDetails loc))
                               (build_cameras (devices_of r)))"
proof -
  from build_returned_inv [OF assms] obtain raw r where
    rr: "user_locations_reply srv = Some raw" "ring_devices_reply srv = Some r"
    and locs: "locs = build_locations opts raw (devices_of r) (build_cameras (devices_of r))"
    by blast
  have eq: "location_allowed opts = (\<lambda>l. case locationIds opts of None \<Rightarrow> True
                                            | Some ids \<Rightarrow> ul_location_id l \<in> set ids)"
    by (rule ext) (rule location_allowed_iff)
  have a: "map locationDetails locs
         = filter (\<lambda>l. case locationIds opts of None \<Rightarrow> True
                                            | Some ids \<Rightarrow> ul_location_id l \<in> set ids) raw"
    unfolding locs build_locations_details eq ..
  have b: "locationIds opts = None \<longrightarrow> map locationDetails locs = raw"
    unfolding a by simp
  have c: "\<forall>loc \<in> set locs.
           loc_cameras loc = filter (\<lambda>x. cd_location_id (cam_data x) = ul_location_id (locationDetails loc))
                               (build_cameras (devices_of r))"
    unfolding locs using build_locations_cameras by blast
  from rr a b c show ?thesis by (intro exI [of _ raw] exI [of _ r] conjI)
qed

lemma example_build:
  "fetchAndBuildLocations (\<lambda>p. p) (example_options (Some [''L1'']) None None) example_client
      example_server 0 empty_world
   = (Returned [\<lparr>locationDetails = \<lparr>ul_location_id = ''L1''\<rparr>,
                 loc_cameras = [\<lparr>cam_id = 7, cam_data = cam_front, isDoorbot = True, cam_dings = []\<rparr>],
                 hasHubs = False\<rparr>],
      snd (fetchAndBuildLocations (\<lambda>p. p) (example_options (Some [''L1'']) None None) example_client
      example_server 0 empty_world))"
proof -
  have rr: "user_locations_reply example_server = Some [\<lparr>ul_location_id = ''L1''\<rparr>, \<lparr>ul_location_id = ''L2''\<rparr>]"
     "ring_devices_reply example_server = Some example_snapshot"
    by (simp_all add: example_server_def)
  have n: "\<not> (using2fa example_client \<and> truthy_string (refreshToken example_client))"
    by (simp add: example_client_def)
  have "fst (fetchAndBuildLocations (\<lambda>p. p) (example_options (Some [''L1'']) None None) example_client
      example_server 0 empty_world) = Returned [\<lparr>locationDetails = \<lparr>ul_location_id = ''L1''\<rparr>,
                 loc_cameras = [\<lparr>cam_id = 7, cam_data = cam_front, isDoorbot = True, cam_dings = []\<rparr>],
                 hasHubs = False\<rparr>]"
    unfolding build_returned [OF rr n]
    by (simp add: build_locations_def build_cameras_def devices_of_def new_RingCamera_def
        includes_object_def location_allowed_def example_options_def example_snapshot_def
        cam_front_def cam_yard_def)
  then show ?thesis by (simp add: prod_eq_iff)
qed

theorem allow_list_filter_witness:
  "\<exists>raw r. user_locations_reply example_server = Some raw \<and> ring_devices_reply example_server = Some r
     \<and> map locationDetails [\<lparr>locationDetails = \<lparr>ul_location_id = ''L1''\<rparr>,
                 loc_cameras = [\<lparr>cam_id = 7, cam_data = cam_front, isDoorbot = True, cam_dings = []\<rparr>],
                 hasHubs = False\<rparr>]
         = filter (\<lambda>l. ul_location_id l \<in> set [''L1'']) raw"
proof -
  from allow_list_filter [OF example_build] obtain raw r where
    "user_locations_reply example_server = Some raw" "ring_devices_reply example_server = Some r"
    "map locationDetails [\<lparr>locationDetails = \<lparr>ul_location_id = ''L1''\<rparr>,
                 loc_cameras = [\<lparr>cam_id = 7, cam_data = cam_front, isDoorbot = True, cam_dings = []\<rparr>],
                 hasHubs = False\<rparr>]
         = filter (\<lambda>l. case locationIds (example_options (Some [''L1'']) None None) of None \<Rightarrow> True
                                            | Some ids \<Rightarrow> ul_location_id l \<in> set ids) raw"
    by blast
  then show ?thesis
    by (intro exI [of _ raw] exI [of _ r]) (simp add: example_options_def)
qed

section \<open>Properties of the registry and of dispatch\<close>

lemmas eval_defs = subscribed_def polling_options_def example_options_def truthy_number_def on_time_def
  not_overdue_def on_request_update_def admit_trigger_def on_status_timer_def onUpdateReceived_next_def
  on_snapshot_settled_def on_dings_timer_def on_dings_settled_def interval_ms_def Let_def

lemma dom_registry_fold:
  "dom (fold (\<lambda>(i, camera) byId. byId(cam_id camera \<mapsto> i)) (enumerate n cameras) m) =
     dom m \<union> cam_id ` set cameras"
  by (induction cameras arbitrary: n m) auto

lemma dom_camerasById: "dom (camerasById cameras) = cam_id ` set cameras"
  by (simp add: camerasById_def dom_registry_fold)

lemma camerasById_None: "camerasById cameras i = None \<longleftrightarrow> i \<notin> cam_id ` set cameras"
  using dom_camerasById [of cameras] by (metis domIff)

lemma dispatch_data_filter:
  "dispatch_data byId records cs = dispatch_data byId (filter (\<lambda>d. byId (cd_id d) \<noteq> None) records) cs"
  unfolding dispatch_data_def
  by (induction records arbitrary: cs) auto

lemma dispatch_data_unknown:
  "\<forall>d \<in> set records. byId (cd_id d) = None \<Longrightarrow> dispatch_data byId records cs = cs"
  unfolding dispatch_data_def
  by (induction records arbitrary: cs) auto

lemma dispatch_dings_filter:
  "dispatch_dings byId ds cs = dispatch_dings byId (filter (\<lambda>d. byId (doorbot_id d) \<noteq> None) ds) cs"
  unfolding dispatch_dings_def
  by (induction ds arbitrary: cs) auto

lemma dispatch_dings_unknown:
  "\<forall>d \<in> set ds. byId (doorbot_id d) = None \<Longrightarrow> dispatch_dings byId ds cs = cs"
  unfolding dispatch_dings_def
  by (induction ds arbitrary: cs) auto

lemma snapshot_settled_devices:
  "devices (on_snapshot_settled t k response s) =
     (if statusSubscribed s = Some k
      then (case response of None \<Rightarrow> devices s
            | Some r \<Rightarrow> dispatch_data (registry s) (allCameras r) (devices s))
      else devices s)"
  by (simp add: on_snapshot_settled_def onUpdateReceived_next_def Let_def split: option.splits)

lemma dings_settled_devices:
  "devices (on_dings_settled t k activeDings s) =
     (if dingsSubscribed s = Some k
      then (case activeDings of None \<Rightarrow> devices s
            | Some ds \<Rightarrow> dispatch_dings (registry s) ds (devices s))
      else devices s)"
  by (simp add: on_dings_settled_def Let_def dispatch_dings_def split: option.splits)


lemma registry_fold_Some:
  "fold (\<lambda>(i, camera) byId. byId(cam_id camera \<mapsto> i)) (enumerate n cameras) m i = Some j \<Longrightarrow>
     m i = Some j \<or> (n \<le> j \<and> j < n + length cameras \<and> cam_id (cameras ! (j - n)) = i)"
proof (induction cameras arbitrary: n m)
  case Nil
  then show ?case by simp
next
  case (Cons c cs)
  have "fold (\<lambda>(i, camera) byId. byId(cam_id camera \<mapsto> i)) (enumerate n (c # cs)) m
      = fold (\<lambda>(i, camera) byId. byId(cam_id camera \<mapsto> i)) (enumerate (Suc n) cs)
          (m(cam_id c \<mapsto> n))"
    by simp
  with Cons.prems have "fold (\<lambda>(i, camera) byId. byId(cam_id camera \<mapsto> i)) (enumerate (Suc n) cs)
       (m(cam_id c \<mapsto> n)) i = Some j"
    by (simp only:)
  from Cons.IH [OF this]
  show ?case
  proof
    assume "(m(cam_id c \<mapsto> n)) i = Some j"
    then show ?thesis by (auto split: if_splits)
  next
    assume a: "Suc n \<le> j \<and> j < Suc n + length cs \<and> cam_id (cs ! (j - Suc n)) = i"
    then have "Suc n \<le> j" by simp
    then have "j - n = Suc (j - Suc n)" by arith
    with a show ?thesis by simp
  qed
qed

lemma camerasById_Some:
  "camerasById cameras i = Some j \<Longrightarrow> j < length cameras \<and> cam_id (cameras ! j) = i"
  using registry_fold_Some [of 0 cameras Map.empty i j] by (simp add: camerasById_def)

lemma length_dispatch_data: "length (dispatch_data byId records cs) = length cs"
  unfolding dispatch_data_def
  by (induction records arbitrary: cs) (auto split: option.splits)

lemma length_dispatch_dings: "length (dispatch_dings byId dings cs) = length cs"
  unfolding dispatch_dings_def
  by (induction dings arbitrary: cs) (auto split: option.splits)

lemma dispatch_data_snoc:
  "dispatch_data byId (records @ [d]) cs =
     (case byId (cd_id d) of
        None \<Rightarrow> dispatch_data byId records cs
      | Some i \<Rightarrow> (dispatch_data byId records cs)[i := updateData (dispatch_data byId records cs ! i) d])"
  unfolding dispatch_data_def by simp

lemma dispatch_dings_snoc:
  "dispatch_dings byId (dings @ [d]) cs =
     (case byId (doorbot_id d) of
        None \<Rightarrow> dispatch_dings byId dings cs
      | Some i \<Rightarrow> (dispatch_dings byId dings cs)[i := processActiveDing (dispatch_dings byId dings cs ! i) d])"
  unfolding dispatch_dings_def by simp

lemma dispatch_data_nth:
  "j < length cs \<Longrightarrow>
     dispatch_data byId records cs ! j =
       (case find (\<lambda>d. byId (cd_id d) = Some j) (rev records) of
          None \<Rightarrow> cs ! j
        | Some d \<Rightarrow> updateData (cs ! j) d)"
proof (induction records rule: rev_induct)
  case Nil
  then show ?case by (simp add: dispatch_data_def)
next
  case (snoc d records)
  let ?prev = "dispatch_data byId records cs"
  have len: "j < length ?prev" using snoc.prems by (simp add: length_dispatch_data)
  show ?case
  proof (cases "byId (cd_id d)")
    case None
    with snoc show ?thesis by (simp add: dispatch_data_snoc)
  next
    case (Some i)
    show ?thesis
    proof (cases "i = j")
      case True
      have "updateData (?prev ! j) d = updateData (cs ! j) d"
        using snoc.IH [OF snoc.prems] by (simp add: updateData_def split: option.splits)
      with Some True len show ?thesis by (simp add: dispatch_data_snoc)
    next
      case False
      with Some snoc show ?thesis by (simp add: dispatch_data_snoc)
    qed
  qed
qed

lemma dispatch_dings_nth:
  "j < length cs \<Longrightarrow>
     dispatch_dings byId dings cs ! j =
       (cs ! j)\<lparr>cam_dings := cam_dings (cs ! j) @ filter (\<lambda>d. byId (doorbot_id d) = Some j) dings\<rparr>"
proof (induction dings rule: rev_induct)
  case Nil
  then show ?case by (simp add: dispatch_dings_def)
next
  case (snoc d dings)
  let ?prev = "dispatch_dings byId dings cs"
  have len: "j < length ?prev" using snoc.prems by (simp add: length_dispatch_dings)
  show ?case
  proof (cases "byId (doorbot_id d)")
    case None
    with snoc show ?thesis by (simp add: dispatch_dings_snoc)
  next
    case (Some i)
    show ?thesis
    proof (cases "i = j")
      case True
      with Some len snoc.IH [OF snoc.prems] show ?thesis
        by (simp add: dispatch_dings_snoc processActiveDing_def)
    next
      case False
      with Some snoc show ?thesis by (simp add: dispatch_dings_snoc)
    qed
  qed
qed

text \<open>
  C7. Records whose id is not in the registry are dropped: dispatching a fetch result is
  the same as dispatching only its records with registered ids, and when no record has
  a registered id no Device changes, for status records and for event records alike,
  also through the subscribers of the two pipelines. Records with registered ids are
  dispatched: the registry maps an id to a camera with that id, after a status dispatch
  every Device holds the last record that the registry sends to it (and is untouched when
  there is none), after an event dispatch it has received exactly the events the registry
  sends to it, in order, and the subscriber of a fetch that is subscribed to hands the
  whole result to that dispatch. Dispatch has no failing branch.
\<close>

theorem unknown_ids_dropped:
  "dispatch_data (camerasById cameras) records cs
     = dispatch_data (camerasById cameras) (filter (\<lambda>d. cd_id d \<in> cam_id ` set cameras) records) cs
   \<and> dispatch_dings (camerasById cameras) dings cs
     = dispatch_dings (camerasById cameras) (filter (\<lambda>d. doorbot_id d \<in> cam_id ` set cameras) dings) cs
   \<and> ((\<forall>d \<in> set records. cd_id d \<notin> cam_id ` set cameras)
        \<longrightarrow> dispatch_data (camerasById cameras) records cs = cs)
   \<and> ((\<forall>d \<in> set dings. doorbot_id d \<notin> cam_id ` set cameras)
        \<longrightarrow> dispatch_dings (camerasById cameras) dings cs = cs)
   \<and> ((\<forall>d \<in> set (allCameras r). registry s (cd_id d) = None)
        \<longrightarrow> devices (on_snapshot_settled t k (Some r) s) = devices s)
   \<and> ((\<forall>d \<in> set dings. registry s (doorbot_id d) = None)
        \<longrightarrow> devices (on_dings_settled t k (Some dings) s) = devices s)
   \<and> (\<forall>i j. camerasById cameras i = Some j \<longrightarrow> j < length cameras \<and> cam_id (cameras ! j) = i)
   \<and> length (dispatch_data (camerasById cameras) records cs) = length cs
   \<and> (\<forall>j. j < length cs \<longrightarrow>
         dispatch_data (camerasById cameras) records cs ! j =
           (case find (\<lambda>d. camerasById cameras (cd_id d) = Some j) (rev records) of
              None \<Rightarrow> cs ! j
            | Some d \<Rightarrow> updateData (cs ! j) d))
   \<and> length (dispatch_dings (camerasById cameras) dings cs) = length cs
   \<and> (\<forall>j. j < length cs \<longrightarrow>
         dispatch_dings (camerasById cameras) dings cs ! j =
           (cs ! j)\<lparr>cam_dings := cam_dings (cs ! j)
                       @ filter (\<lambda>d. camerasById cameras (doorbot_id d) = Some j) dings\<rparr>)
   \<and> (statusSubscribed s = Some k \<longrightarrow>
         devices (on_snapshot_settled t k (Some r) s)
           = dispatch_data (registry s) (allCameras r) (devices s))
   \<and> (dingsSubscribed s = Some k \<longrightarrow>
         devices (on_dings_settled t k (Some dings) s)
           = dispatch_dings (registry s) dings (devices s))"
proof -
  have a: "dispatch_data (camerasById cameras) records cs
     = dispatch_data (camerasById cameras) (filter (\<lambda>d. cd_id d \<in> cam_id ` set cameras) records) cs"
    using dispatch_data_filter [of "camerasById cameras" records cs]
    by (simp add: camerasById_None)
  have b: "dispatch_dings (camerasById cameras) dings cs
     = dispatch_dings (camerasById cameras) (filter (\<lambda>d. doorbot_id d \<in> cam_id ` set cameras) dings) cs"
    using dispatch_dings_filter [of "camerasById cameras" dings cs]
    by (simp add: camerasById_None)
  have c: "(\<forall>d \<in> set records. cd_id d \<notin> cam_id ` set cameras)
        \<longrightarrow> dispatch_data (camerasById cameras) records cs = cs"
    using dispatch_data_unknown [of records "camerasById cameras" cs]
    by (simp add: camerasById_None)
  have d: "(\<forall>d \<in> set dings. doorbot_id d \<notin> cam_id ` set cameras)
        \<longrightarrow> dispatch_dings (camerasById cameras) dings cs = cs"
    using dispatch_dings_unknown [of dings "camerasById cameras" cs]
    by (simp add: camerasById_None)
  have e: "(\<forall>d \<in> set (allCameras r). registry s (cd_id d) = None)
        \<longrightarrow> devices (on_snapshot_settled t k (Some r) s) = devices s"
    using dispatch_data_unknown [of "allCameras r" "registry s" "devices s"]
    by (simp add: snapshot_settled_devices)
  have f: "(\<forall>d \<in> set dings. registry s (doorbot_id d) = None)
        \<longrightarrow> devices (on_dings_settled t k (Some dings) s) = devices s"
    using dispatch_dings_unknown [of dings "registry s" "devices s"]
    by (simp add: dings_settled_devices)
  have g: "\<forall>i j. camerasById cameras i = Some j \<longrightarrow> j < length cameras \<and> cam_id (cameras ! j) = i"
    using camerasById_Some by blast
  have h: "\<forall>j. j < length cs \<longrightarrow>
         dispatch_data (camerasById cameras) records cs ! j =
           (case find (\<lambda>d. camerasById cameras (cd_id d) = Some j) (rev records) of
              None \<Rightarrow> cs ! j
            | Some d \<Rightarrow> updateData (cs ! j) d)"
    using dispatch_data_nth by blast
  have i: "\<forall>j. j < length cs \<longrightarrow>
         dispatch_dings (camerasById cameras) dings cs ! j =
           (cs ! j)\<lparr>cam_dings := cam_dings (cs ! j)
                       @ filter (\<lambda>d. camerasById cameras (doorbot_id d) = Some j) dings\<rparr>"
    using dispatch_dings_nth by blast
  have j: "statusSubscribed s = Some k \<longrightarrow>
         devices (on_snapshot_settled t k (Some r) s)
           = dispatch_data (registry s) (allCameras r) (devices s)"
    by (simp add: snapshot_settled_devices)
  have l: "dingsSubscribed s = Some k \<longrightarrow>
         devices (on_dings_settled t k (Some dings) s)
           = dispatch_dings (registry s) dings (devices s)"
    by (simp add: dings_settled_devices)
  from a b c d e f g length_dispatch_data [of "camerasById cameras" records cs] h
    length_dispatch_dings [of "camerasById cameras" dings cs] i j l
  show ?thesis by (intro conjI)
qed


lemma singleton_nth: "length xs = length [y] \<Longrightarrow> xs ! 0 = x \<Longrightarrow> xs = [x]"
  by (cases xs) auto

theorem unknown_ids_dropped_witness:
  "\<exists>s. run [StatusTimer, DingsTimer] (subscribed polling_options [front_camera] 0) = Some s
     \<and> dispatch_data (camerasById [front_camera]) [unknown_record] [front_camera] = [front_camera]
     \<and> dispatch_dings (camerasById [front_camera]) [unknown_ding] [front_camera] = [front_camera]
     \<and> devices (on_snapshot_settled 1200 0 (Some (only_cameras [unknown_record])) s) = [front_camera]
     \<and> devices (on_dings_settled 1200 0 (Some [unknown_ding]) s) = [front_camera]
     \<and> devices (on_snapshot_settled 1200 0 (Some (only_cameras [unknown_record, moved_record])) s)
         = [updateData front_camera moved_record]
     \<and> devices (on_dings_settled 1200 0 (Some [unknown_ding, front_ding]) s)
         = [processActiveDing front_camera front_ding]"
proof -
  have "\<exists>s. run [StatusTimer, DingsTimer] (subscribed polling_options [front_camera] 0) = Some s
     \<and> statusSubscribed s = Some 0 \<and> dingsSubscribed s = Some 0
     \<and> registry s = camerasById [front_camera] \<and> devices s = [front_camera]"
    by (simp add: eval_defs)
  then obtain s where r: "run [StatusTimer, DingsTimer] (subscribed polling_options [front_camera] 0) = Some s"
    and k: "statusSubscribed s = Some 0" and kd: "dingsSubscribed s = Some 0"
    and reg: "registry s = camerasById [front_camera]" and dev: "devices s = [front_camera]"
    by blast
  have known: "camerasById [front_camera] 7 = Some 0" and unknown: "camerasById [front_camera] 99 = None"
    by (simp_all add: camerasById_def front_camera_def new_RingCamera_def cam_front_def)
  have ids: "cam_id ` set [front_camera] = {7}"
    by (simp add: front_camera_def new_RingCamera_def cam_front_def)
  note A = unknown_ids_dropped [where cameras = "[front_camera]" and records = "[unknown_record]"
      and cs = "[front_camera]" and dings = "[unknown_ding]" and r = "only_cameras [unknown_record]"
      and s = s and t = 1200 and k = 0]
  note B = unknown_ids_dropped [where cameras = "[front_camera]"
      and records = "[unknown_record, moved_record]"
      and cs = "[front_camera]" and dings = "[unknown_ding, front_ding]"
      and r = "only_cameras [unknown_record, moved_record]"
      and s = s and t = 1200 and k = 0]
  have h1: "\<forall>d \<in> set [unknown_record]. cd_id d \<notin> cam_id ` set [front_camera]"
    unfolding ids by (simp add: unknown_record_def)
  have h2: "\<forall>d \<in> set [unknown_ding]. doorbot_id d \<notin> cam_id ` set [front_camera]"
    unfolding ids by (simp add: unknown_ding_def)
  have h3: "\<forall>d \<in> set (allCameras (only_cameras [unknown_record])). registry s (cd_id d) = None"
    unfolding reg using unknown by (simp add: only_cameras_def unknown_record_def)
  have h4: "\<forall>d \<in> set [unknown_ding]. registry s (doorbot_id d) = None"
    unfolding reg using unknown by (simp add: unknown_ding_def)
  from A have c: "(\<forall>d \<in> set [unknown_record]. cd_id d \<notin> cam_id ` set [front_camera])
        \<longrightarrow> dispatch_data (camerasById [front_camera]) [unknown_record] [front_camera] = [front_camera]"
    by (elim conjE)
  from A have d: "(\<forall>d \<in> set [unknown_ding]. doorbot_id d \<notin> cam_id ` set [front_camera])
        \<longrightarrow> dispatch_dings (camerasById [front_camera]) [unknown_ding] [front_camera] = [front_camera]"
    by (elim conjE)
  from A have e: "(\<forall>d \<in> set (allCameras (only_cameras [unknown_record])). registry s (cd_id d) = None)
        \<longrightarrow> devices (on_snapshot_settled 1200 0 (Some (only_cameras [unknown_record])) s) = devices s"
    by (elim conjE)
  from A have f: "(\<forall>d \<in> set [unknown_ding]. registry s (doorbot_id d) = None)
        \<longrightarrow> devices (on_dings_settled 1200 0 (Some [unknown_ding]) s) = devices s"
    by (elim conjE)
  from B have bl: "length (dispatch_data (camerasById [front_camera]) [unknown_record, moved_record] [front_camera])
        = length [front_camera]"
    by (elim conjE)
  from B have bn: "\<forall>j. j < length [front_camera] \<longrightarrow>
         dispatch_data (camerasById [front_camera]) [unknown_record, moved_record] [front_camera] ! j =
           (case find (\<lambda>d. camerasById [front_camera] (cd_id d) = Some j) (rev [unknown_record, moved_record]) of
              None \<Rightarrow> [front_camera] ! j
            | Some d \<Rightarrow> updateData ([front_camera] ! j) d)"
    by (elim conjE)
  from B have dl: "length (dispatch_dings (camerasById [front_camera]) [unknown_ding, front_ding] [front_camera])
        = length [front_camera]"
    by (elim conjE)
  from B have dn: "\<forall>j. j < length [front_camera] \<longrightarrow>
         dispatch_dings (camerasById [front_camera]) [unknown_ding, front_ding] [front_camera] ! j =
           ([front_camera] ! j)\<lparr>cam_dings := cam_dings ([front_camera] ! j)
                       @ filter (\<lambda>d. camerasById [front_camera] (doorbot_id d) = Some j) [unknown_ding, front_ding]\<rparr>"
    by (elim conjE)
  from B have bs: "statusSubscribed s = Some 0 \<longrightarrow>
         devices (on_snapshot_settled 1200 0 (Some (only_cameras [unknown_record, moved_record])) s)
           = dispatch_data (registry s) (allCameras (only_cameras [unknown_record, moved_record])) (devices s)"
    by (elim conjE)
  from B have ds: "dingsSubscribed s = Some 0 \<longrightarrow>
         devices (on_dings_settled 1200 0 (Some [unknown_ding, front_ding]) s)
           = dispatch_dings (registry s) [unknown_ding, front_ding] (devices s)"
    by (elim conjE)
  have n0: "dispatch_data (camerasById [front_camera]) [unknown_record, moved_record] [front_camera] ! 0
        = updateData front_camera moved_record"
    using bn [rule_format, of 0] known unknown
    by (simp add: unknown_record_def moved_record_def)
  have m0: "dispatch_dings (camerasById [front_camera]) [unknown_ding, front_ding] [front_camera] ! 0
        = processActiveDing front_camera front_ding"
    using dn [rule_format, of 0] known unknown
    by (simp add: unknown_ding_def front_ding_def processActiveDing_def)
  have x1: "devices (on_snapshot_settled 1200 0 (Some (only_cameras [unknown_record, moved_record])) s)
         = [updateData front_camera moved_record]"
    using bs k singleton_nth [OF bl n0] by (simp add: reg dev only_cameras_def)
  have x2: "devices (on_dings_settled 1200 0 (Some [unknown_ding, front_ding]) s)
         = [processActiveDing front_camera front_ding]"
    using ds kd singleton_nth [OF dl m0] by (simp add: reg dev)
  from c h1 d h2 e h3 f h4 dev r x1 x2 show ?thesis by (intro exI [of _ s]) simp
qed

lemma known_id_dispatched:
  "dispatch_data (camerasById [front_camera])
      [unknown_record, \<lparr>cd_ref = 3, cd_id = 7, cd_location_id = ''L2''\<rparr>] [front_camera]
   = [\<lparr>cam_id = 7, cam_data = \<lparr>cd_ref = 3, cd_id = 7, cd_location_id = ''L2''\<rparr>,
        isDoorbot = True, cam_dings = []\<rparr>]"
  by (simp add: dispatch_data_def camerasById_def front_camera_def new_RingCamera_def
      cam_front_def unknown_record_def updateData_def)

section \<open>Properties of \<open>getLocations\<close>\<close>

lemma getLocations_pow: "((\<lambda>w. snd (getLocations api w)) ^^ n) w = w"
  by (induction n) (simp_all add: getLocations_def)

lemma requests_fetchRawLocations:
  "requests (snd (fetchRawLocations srv w)) = requests w @ [''https://app.ring.com/rhq/v1/devices/v1/locations'']"
  by (simp add: fetchRawLocations_cases split: option.splits)

lemma build_requests_grow:
  "length (requests w) < length (requests (snd (fetchAndBuildLocations capi opts rc srv t0 w)))"
proof (cases "user_locations_reply srv")
  case None
  then show ?thesis
    by (simp add: fetchAndBuildLocations_def fetchRawLocations_cases)
next
  case (Some raw)
  show ?thesis
  proof (cases "ring_devices_reply srv")
    case None
    with Some show ?thesis
      by (simp add: fetchAndBuildLocations_def fetchRawLocations_cases fetchRingDevices_cases)
  next
    case (Some r)
    with \<open>user_locations_reply srv = Some raw\<close> show ?thesis
      using build_exit [of srv raw r rc capi opts t0 w] build_returned [of srv raw r rc capi opts t0 w]
      by (cases "using2fa rc \<and> truthy_string (refreshToken rc)") (auto split: option.splits)
  qed
qed


text \<open>
  C4 (as amended). The directory is built once, when the \<open>RingApi\<close> object is
  constructed. \<open>getLocations\<close> returns that stored result however often it is called and
  has no effect: it sends no request and registers nothing. Only a direct call of
  \<open>fetchAndBuildLocations\<close> runs the build again: it sends its requests again and, when
  it returns with a non-empty camera set, subscribes one more coordinator.
\<close>

theorem getLocations_cached:
  assumes "new_RingApi capi opts rc srv t0 w = (api, w1)"
  shows "locations api = fst (fetchAndBuildLocations capi opts rc srv t0 w)
     \<and> w1 = snd (fetchAndBuildLocations capi opts rc srv t0 w)
     \<and> getLocations api w' = (locations api, w')
     \<and> ((\<lambda>w. snd (getLocations api w)) ^^ n) w1 = w1
     \<and> length (requests w1) < length (requests (snd (fetchAndBuildLocations capi opts rc srv t1 w1)))
     \<and> (\<forall>locs r. fst (fetchAndBuildLocations capi opts rc srv t1 w1) = Returned locs
            \<and> ring_devices_reply srv = Some r \<and> allCameras (devices_of r) \<noteq> []
          \<longrightarrow> requests (snd (fetchAndBuildLocations capi opts rc srv t1 w1))
                = requests w1 @ [''https://app.ring.com/rhq/v1/devices/v1/locations'', capi ''ring_devices'']
            \<and> coordinators (snd (fetchAndBuildLocations capi opts rc srv t1 w1))
                = coordinators w1 @ [subscribed opts (build_cameras (devices_of r)) t1])"
proof -
  from assms have a: "locations api = fst (fetchAndBuildLocations capi opts rc srv t0 w)"
    and b: "w1 = snd (fetchAndBuildLocations capi opts rc srv t0 w)"
    by (auto simp add: new_RingApi_def split: prod.splits)
  have c: "getLocations api w' = (locations api, w')"
    by (simp add: getLocations_def)
  have e: "requests (snd (fetchAndBuildLocations capi opts rc srv t1 w1))
                = requests w1 @ [''https://app.ring.com/rhq/v1/devices/v1/locations'', capi ''ring_devices'']
            \<and> coordinators (snd (fetchAndBuildLocations capi opts rc srv t1 w1))
                = coordinators w1 @ [subscribed opts (build_cameras (devices_of r)) t1]"
    if x: "fst (fetchAndBuildLocations capi opts rc srv t1 w1) = Returned locs"
      and r: "ring_devices_reply srv = Some r" and ne: "allCameras (devices_of r) \<noteq> []" for locs r
  proof -
    obtain w2 where "fetchAndBuildLocations capi opts rc srv t1 w1 = (Returned locs, w2)"
      using x by (cases "fetchAndBuildLocations capi opts rc srv t1 w1") simp
    from build_returned_inv [OF this] r obtain raw where
      raw: "user_locations_reply srv = Some raw"
      and n: "\<not> (using2fa rc \<and> truthy_string (refreshToken rc))"
      by auto
    have cams: "build_cameras (devices_of r) \<noteq> []"
      using ne by (simp add: build_cameras_def)
    show ?thesis
      unfolding build_returned [OF raw r n]
      using cams by (simp add: listenForCameraUpdates_def)
  qed
  from a b c getLocations_pow [of n api w1] build_requests_grow [of w1 capi opts rc srv t1] e
  show ?thesis by blast
qed


lemma example_returned:
  "fetchAndBuildLocations (\<lambda>p. p) (example_options None None None) example_client example_server t w
   = (Returned (build_locations (example_options None None None)
                  [\<lparr>ul_location_id = ''L1''\<rparr>, \<lparr>ul_location_id = ''L2''\<rparr>]
                  (devices_of example_snapshot) (build_cameras (devices_of example_snapshot))),
      w\<lparr>requests := requests w @ [''https://app.ring.com/rhq/v1/devices/v1/locations'', ''ring_devices''],
        coordinators := coordinators w
          @ [subscribed (example_options None None None) (build_cameras (devices_of example_snapshot)) t]\<rparr>)"
proof -
  have rr: "user_locations_reply example_server = Some [\<lparr>ul_location_id = ''L1''\<rparr>, \<lparr>ul_location_id = ''L2''\<rparr>]"
     "ring_devices_reply example_server = Some example_snapshot"
    by (simp_all add: example_server_def)
  have n: "\<not> (using2fa example_client \<and> truthy_string (refreshToken example_client))"
    by (simp add: example_client_def)
  have cams: "build_cameras (devices_of example_snapshot) \<noteq> []"
    by (simp add: build_cameras_def devices_of_def example_snapshot_def)
  show ?thesis
    unfolding build_returned [OF rr n]
    using cams by (simp add: listenForCameraUpdates_def)
qed

theorem getLocations_cached_witness:
  "getLocations (fst (new_RingApi (\<lambda>p. p) (example_options None None None) example_client example_server 0 empty_world))
       (snd (new_RingApi (\<lambda>p. p) (example_options None None None) example_client example_server 0 empty_world))
     = (Returned (build_locations (example_options None None None)
                  [\<lparr>ul_location_id = ''L1''\<rparr>, \<lparr>ul_location_id = ''L2''\<rparr>]
                  (devices_of example_snapshot) (build_cameras (devices_of example_snapshot))),
        snd (new_RingApi (\<lambda>p. p) (example_options None None None) example_client example_server 0 empty_world))
   \<and> length (coordinators (snd (fetchAndBuildLocations (\<lambda>p. p) (example_options None None None) example_client example_server 9
        (snd (new_RingApi (\<lambda>p. p) (example_options None None None) example_client example_server 0 empty_world))))) = 2"
  (is "getLocations (fst ?N) (snd ?N) = (Returned ?L, snd ?N) \<and> length (coordinators (snd ?B)) = 2")
proof -
  let ?o = "example_options None None None"
  have N: "?N = (fst ?N, snd ?N)" by simp
  note t = getLocations_cached [OF N, of "snd ?N" 1 9]
  have w1: "snd ?N = empty_world\<lparr>requests := requests empty_world @ [''https://app.ring.com/rhq/v1/devices/v1/locations'', ''ring_devices''],
        coordinators := coordinators empty_world
          @ [subscribed ?o (build_cameras (devices_of example_snapshot)) 0]\<rparr>"
    using t [THEN conjunct2, THEN conjunct1] by (simp add: example_returned)
  have l: "locations (fst ?N) = Returned ?L"
    using t [THEN conjunct1] by (simp add: example_returned)
  have g: "getLocations (fst ?N) (snd ?N) = (Returned ?L, snd ?N)"
    using t [THEN conjunct2, THEN conjunct2, THEN conjunct1] l by simp
  have pre: "fst ?B = Returned ?L \<and> ring_devices_reply example_server = Some example_snapshot
       \<and> allCameras (devices_of example_snapshot) \<noteq> []"
  proof (intro conjI)
    show "fst ?B = Returned ?L" by (simp add: example_returned)
    show "ring_devices_reply example_server = Some example_snapshot" by (simp add: example_server_def)
    show "allCameras (devices_of example_snapshot) \<noteq> []" by (simp add: devices_of_def example_snapshot_def)
  qed
  have "coordinators (snd ?B) = coordinators (snd ?N) @ [subscribed ?o (build_cameras (devices_of example_snapshot)) 9]"
    using t [THEN conjunct2, THEN conjunct2, THEN conjunct2, THEN conjunct2, THEN conjunct2, rule_format, OF pre]
    by (rule conjunct2)
  then have "length (coordinators (snd ?B)) = 2"
    unfolding w1 by (simp add: empty_world_def)
  with g show ?thesis by (rule conjI)
qed

theorem getLocations_cached_counterexample:
  "length (requests (snd (new_RingApi (\<lambda>p. p) (example_options None None None) example_client example_server 0 empty_world))) = 2
   \<and> length (coordinators (snd (new_RingApi (\<lambda>p. p) (example_options None None None) example_client example_server 0 empty_world))) = 1
   \<and> snd (getLocations (fst (new_RingApi (\<lambda>p. p) (example_options None None None) example_client example_server 0 empty_world))
       (snd (new_RingApi (\<lambda>p. p) (example_options None None None) example_client example_server 0 empty_world)))
     = snd (new_RingApi (\<lambda>p. p) (example_options None None None) example_client example_server 0 empty_world)
   \<and> length (requests (snd (fetchAndBuildLocations (\<lambda>p. p) (example_options None None None) example_client example_server 9
       (snd (new_RingApi (\<lambda>p. p) (example_options None None None) example_client example_server 0 empty_world))))) = 4"
  by (simp add: new_RingApi_def example_returned getLocations_def empty_world_def)

section \<open>Properties of the coordinators\<close>

lemma run_invariant:
  assumes "run evs s = Some s'" and "P s"
    and "\<And>s e s'. P s \<Longrightarrow> step s e = Some s' \<Longrightarrow> P s'"
  shows "P s'"
  using assms(1,2)
proof (induction evs arbitrary: s)
  case Nil
  then show ?case by simp
next
  case (Cons e es)
  then obtain s1 where s1: "step s e = Some s1" "run es s1 = Some s'"
    by (auto split: option.splits)
  from assms(3) [OF Cons.prems(2) s1(1)] have "P s1" .
  from Cons.IH [OF s1(2) this] show ?case .
qed

lemma run_append: "run (xs @ ys) s = (case run xs s of None \<Rightarrow> None | Some s' \<Rightarrow> run ys s')"
  by (induction xs arbitrary: s) (auto split: option.splits)

lemma step_cases:
  assumes "step s e = Some s'"
  obtains
    (request) t where "e = RequestUpdate t" "on_time s t" "s' = on_request_update t (s\<lparr>clock := t\<rparr>)"
  | (status_timer) due where "e = StatusTimer" "statusDebounce s = Some due" "on_time s due"
      "s' = on_status_timer due (s\<lparr>clock := due\<rparr>)"
  | (snapshot) t k r where "e = SnapshotSettled t k r" "on_time s t" "k \<in> set (statusOutstanding s)"
      "s' = on_snapshot_settled t k r (s\<lparr>clock := t\<rparr>)"
  | (dings_timer) due where "e = DingsTimer" "dingsDebounce s = Some due" "on_time s due"
      "s' = on_dings_timer due (s\<lparr>clock := due\<rparr>)"
  | (dings) t k r where "e = DingsSettled t k r" "on_time s t" "k \<in> set (dingsOutstanding s)"
      "s' = on_dings_settled t k r (s\<lparr>clock := t\<rparr>)"
  using assms by (cases e) (auto split: option.splits if_splits)

lemma step_clock: "step s e = Some s' \<Longrightarrow> clock s \<le> clock s'"
  by (erule step_cases)
     (auto simp: on_time_def on_request_update_def admit_trigger_def on_status_timer_def
        on_snapshot_settled_def onUpdateReceived_next_def on_dings_timer_def on_dings_settled_def
        Let_def split: option.splits)

lemma run_clock: "run evs s = Some s' \<Longrightarrow> clock s \<le> clock s'"
proof (induction evs arbitrary: s)
  case Nil
  then show ?case by simp
next
  case (Cons e es)
  then obtain s1 where s1: "step s e = Some s1" "run es s1 = Some s'"
    by (auto split: option.splits)
  from step_clock [OF s1(1)] Cons.IH [OF s1(2)] show ?case by simp
qed

lemma step_seconds:
  "step s e = Some s' \<Longrightarrow> statusSeconds s' = statusSeconds s \<and> dingsSeconds s' = dingsSeconds s
     \<and> registry s' = registry s"
  by (erule step_cases)
     (auto simp: on_request_update_def admit_trigger_def on_status_timer_def
        on_snapshot_settled_def onUpdateReceived_next_def on_dings_timer_def on_dings_settled_def
        Let_def split: option.splits)

subsection \<open>The throttle window\<close>

lemma step_in_window:
  assumes "step s e = Some s'" and "clock s' < triggerThrottledUntil s"
  shows "snapshotFetches s' = snapshotFetches s \<and> triggerThrottledUntil s' = triggerThrottledUntil s"
  using assms
  by (elim step_cases)
     (auto simp: on_request_update_def admit_trigger_def on_status_timer_def
        on_snapshot_settled_def onUpdateReceived_next_def on_dings_timer_def on_dings_settled_def
        Let_def split: option.splits if_splits)

lemma run_in_window:
  assumes "run evs s = Some s'" and "clock s' < triggerThrottledUntil s"
  shows "snapshotFetches s' = snapshotFetches s"
  using assms
proof (induction evs arbitrary: s)
  case Nil
  then show ?case by simp
next
  case (Cons e es)
  then obtain s1 where s1: "step s e = Some s1" "run es s1 = Some s'"
    by (auto split: option.splits)
  from run_clock [OF s1(2)] Cons.prems(2) have "clock s1 < triggerThrottledUntil s" by simp
  from step_in_window [OF s1(1) this] Cons.IH [OF s1(2)] Cons.prems(2) show ?case by simp
qed

text \<open>
  C6 (as amended). When no manual trigger has passed the first throttle and no trigger
  has passed the second one during the 500 ms before a manual trigger at \<open>t0\<close>, that
  trigger starts a snapshot fetch at \<open>t0\<close>, and whatever happens before \<open>t0 + 500\<close>
  (further manual triggers, the poll timer, settling fetches) starts no other: exactly
  one fetch for the window, the later triggers dropped. Without that condition the
  burst may start no fetch at all.
\<close>

theorem burst_one_fetch:
  assumes "requestThrottledUntil s \<le> t0" and "triggerThrottledUntil s \<le> t0"
    and "run (RequestUpdate t0 # evs) s = Some s'"
    and "clock s' < t0 + 500"
  shows "snapshotFetches s' = snapshotFetches s @ [(t0, Manual)]"
proof -
  from assms(3) obtain s1 where s1: "step s (RequestUpdate t0) = Some s1" "run evs s1 = Some s'"
    by (auto split: option.splits)
  from s1(1) assms(1,2) have first: "snapshotFetches s1 = snapshotFetches s @ [(t0, Manual)]"
    and until: "triggerThrottledUntil s1 = t0 + 500"
    by (auto simp: on_request_update_def admit_trigger_def split: if_splits)
  from run_in_window [OF s1(2)] assms(4) until first show ?thesis by simp
qed

theorem burst_one_fetch_witness:
  "\<exists>s. run [RequestUpdate 100, RequestUpdate 250, RequestUpdate 599]
            (subscribed (example_options None None None) [front_camera] 0) = Some s
       \<and> snapshotFetches s = [(100, Manual)]"
proof -
  let ?s0 = "subscribed (example_options None None None) [front_camera] 0"
  have a: "requestThrottledUntil ?s0 \<le> 100" and b: "triggerThrottledUntil ?s0 \<le> 100"
    and e: "snapshotFetches ?s0 = []"
    by (simp_all add: eval_defs)
  have "\<exists>s. run [RequestUpdate 100, RequestUpdate 250, RequestUpdate 599] ?s0 = Some s \<and> clock s = 599"
    by (simp add: eval_defs)
  then obtain s where r: "run [RequestUpdate 100, RequestUpdate 250, RequestUpdate 599] ?s0 = Some s"
    and c: "clock s < 100 + 500"
    by auto
  from burst_one_fetch [OF a b r c] e have "snapshotFetches s = [(100, Manual)]" by simp
  with r show ?thesis by blast
qed

theorem burst_one_fetch_counterexample:
  "map_option snapshotFetches
     (run [StatusTimer, RequestUpdate 1100, RequestUpdate 1200, RequestUpdate 1300]
        (subscribed (example_options None (Some 1) None) [front_camera] 0))
   = Some [(1000, Poll)]"
  by (simp add: subscribed_def example_options_def truthy_number_def on_time_def not_overdue_def
      on_request_update_def admit_trigger_def on_status_timer_def onUpdateReceived_next_def
      interval_ms_def Let_def)

subsection \<open>Fetches in flight\<close>









subsection \<open>The periodic trigger\<close>

lemma poll_inv_subscribed:
  "truthy_number (cameraStatusPollingSeconds opts) \<Longrightarrow> poll_inv t0 (subscribed opts cameras t0)"
  by (simp add: poll_inv_def subscribed_def onUpdateReceived_next_def Let_def)

lemma sorted_last_max: "sorted xs \<Longrightarrow> x \<in> set xs \<Longrightarrow> x \<le> last xs"
  by (induction xs) (auto split: if_splits)

lemma poll_inv_clock:
  "poll_inv t0 s \<Longrightarrow> clock s \<le> t \<Longrightarrow> poll_inv t0 (s\<lparr>clock := t\<rparr>)"
  by (fastforce simp: poll_inv_def)

lemma poll_inv_admit_manual:
  "poll_inv t0 s \<Longrightarrow> clock s = t \<Longrightarrow> poll_inv t0 (admit_trigger Manual t s)"
  by (auto simp: poll_inv_def admit_trigger_def)

lemma poll_inv_request:
  assumes "poll_inv t0 s" and "clock s = t"
  shows "poll_inv t0 (on_request_update t s)"
proof -
  have "poll_inv t0 (s\<lparr>requestThrottledUntil := t + 500\<rparr>)"
    using assms(1) by (simp add: poll_inv_def)
  from poll_inv_admit_manual [OF this] assms show ?thesis
    by (simp add: on_request_update_def)
qed

lemma poll_inv_timer:
  assumes "poll_inv t0 s" and "clock s = due" and "statusDebounce s = Some due"
  shows "poll_inv t0 (on_status_timer due s)"
proof -
  from assms have ne: "updateReceivedAt s \<noteq> []"
    and due: "due = last (updateReceivedAt s) + interval_ms (statusSeconds s)"
    by (auto simp: poll_inv_def)
  from assms(1) have srt: "sorted (updateReceivedAt s)" by (simp add: poll_inv_def)
  have lastmem: "last (updateReceivedAt s) \<in> set (updateReceivedAt s)"
    using ne by simp
  from assms(1) lastmem have "t0 \<le> last (updateReceivedAt s)"
    by (auto simp: poll_inv_def)
  with due have lo: "t0 + interval_ms (statusSeconds s) \<le> due" by simp
  have mx: "\<forall>r \<in> set (updateReceivedAt s). r \<le> due - interval_ms (statusSeconds s)"
    using sorted_last_max [OF srt] due by simp
  have mem: "due - interval_ms (statusSeconds s) \<in> set (updateReceivedAt s)"
    using lastmem due by simp
  show ?thesis
    using assms(1,2) lo mx mem
    by (auto simp: poll_inv_def on_status_timer_def admit_trigger_def)
qed

lemma poll_inv_settled:
  assumes "poll_inv t0 s" and "clock s = t"
  shows "poll_inv t0 (on_snapshot_settled t k r s)"
proof (cases "statusSubscribed s = Some k")
  case False
  with assms show ?thesis
    by (simp add: on_snapshot_settled_def poll_inv_def Let_def)
next
  case True
  from assms have le: "\<forall>r \<in> set (updateReceivedAt s). r \<le> t"
    by (auto simp: poll_inv_def)
  from assms have srt: "sorted (updateReceivedAt s @ [t])"
    using le by (simp add: poll_inv_def sorted_append)
  have old: "\<forall>a \<in> set (snapshotFetches s). fst a \<le> t"
    using assms by (auto simp: poll_inv_def)
  from assms(1) have tr: "truthy_number (statusSeconds s)" by (simp add: poll_inv_def)
  from assms have t0: "t0 \<le> t" by (simp add: poll_inv_def)
  let ?s2 = "s\<lparr>statusOutstanding := removeAll k (statusOutstanding s), statusSubscribed := None,
               updateReceivedAt := updateReceivedAt s @ [t],
               statusDebounce := Some (t + interval_ms (statusSeconds s))\<rparr>"
  have p: "poll_inv t0 ?s2"
    unfolding poll_inv_def
    using assms srt old tr t0 le by (auto simp: poll_inv_def)
  have eq: "on_snapshot_settled t k r s =
     (case r of None \<Rightarrow> ?s2
      | Some x \<Rightarrow> ?s2\<lparr>devices := dispatch_data (registry s) (allCameras x) (devices s)\<rparr>)"
    using True tr by (simp add: on_snapshot_settled_def onUpdateReceived_next_def Let_def split: option.splits)
  have "poll_inv t0 (?s2\<lparr>devices := d\<rparr>)" for d
    using p by (simp add: poll_inv_def)
  with p show ?thesis
    unfolding eq by (simp split: option.splits)
qed

lemma poll_inv_step:
  assumes "poll_inv t0 s" and "step s e = Some s'"
  shows "poll_inv t0 s'"
  using assms(2)
proof (cases rule: step_cases)
  case (request t)
  then have c: "clock s \<le> t" by (simp add: on_time_def)
  from poll_inv_request [OF poll_inv_clock [OF assms(1) c], of t] request show ?thesis by simp
next
  case (status_timer due)
  then have c: "clock s \<le> due" by (simp add: on_time_def)
  from poll_inv_timer [OF poll_inv_clock [OF assms(1) c], of due] status_timer show ?thesis by simp
next
  case (snapshot t k r)
  then have c: "clock s \<le> t" by (simp add: on_time_def)
  from poll_inv_settled [OF poll_inv_clock [OF assms(1) c], of t] snapshot show ?thesis by simp
next
  case (dings_timer due)
  then have c: "clock s \<le> due" by (simp add: on_time_def)
  from poll_inv_clock [OF assms(1) c] dings_timer show ?thesis
    by (simp add: poll_inv_def on_dings_timer_def)
next
  case (dings t k r)
  then have c: "clock s \<le> t" by (simp add: on_time_def)
  from poll_inv_clock [OF assms(1) c] dings show ?thesis
    by (simp add: poll_inv_def on_dings_settled_def Let_def split: option.splits)
qed

text \<open>
  C3 (as amended). With a status interval above zero the kick at startup only arms the
  debounce timer: no fetch starts at startup, and every periodic fetch, the first one
  included, starts exactly one status interval after the latest \<open>onUpdateReceived.next()\<close>
  (the startup kick or the delivery of a fetch result), hence no sooner than one interval
  after startup and after the previous delivered completion.
\<close>

theorem periodic_cycle_start:
  assumes "truthy_number (cameraStatusPollingSeconds opts)"
    and "listenForCameraUpdates opts cameras t0 = Some s0"
    and "run evs s0 = Some s"
  shows "snapshotFetches s0 = []
     \<and> statusDebounce s0 = Some (t0 + interval_ms (cameraStatusPollingSeconds opts))
     \<and> (\<forall>a \<in> set (snapshotFetches s). snd a = Poll \<longrightarrow>
            t0 + interval_ms (cameraStatusPollingSeconds opts) \<le> fst a
            \<and> fst a - interval_ms (cameraStatusPollingSeconds opts) \<in> set (updateReceivedAt s)
            \<and> (\<forall>r \<in> set (updateReceivedAt s).
                  r \<le> fst a - interval_ms (cameraStatusPollingSeconds opts) \<or> fst a \<le> r))"
proof -
  from assms(2) have s0: "s0 = subscribed opts cameras t0"
    by (simp add: listenForCameraUpdates_def split: if_splits)
  have a: "snapshotFetches s0 = []"
    unfolding s0 by (simp add: subscribed_def onUpdateReceived_next_def Let_def)
  have b: "statusDebounce s0 = Some (t0 + interval_ms (cameraStatusPollingSeconds opts))"
    unfolding s0 using assms(1) by (simp add: subscribed_def onUpdateReceived_next_def Let_def)
  have sec0: "statusSeconds s0 = cameraStatusPollingSeconds opts"
    unfolding s0 by (simp add: subscribed_def onUpdateReceived_next_def Let_def)
  have "statusSeconds s = statusSeconds s0"
    by (rule run_invariant [OF assms(3), of "\<lambda>x. statusSeconds x = statusSeconds s0"])
       (auto dest: step_seconds)
  with sec0 have sec: "statusSeconds s = cameraStatusPollingSeconds opts" by simp
  have "poll_inv t0 s0"
    unfolding s0 by (rule poll_inv_subscribed [OF assms(1)])
  then have "poll_inv t0 s"
    by (rule run_invariant [OF assms(3), of "poll_inv t0"]) (rule poll_inv_step)
  then have c: "\<forall>a \<in> set (snapshotFetches s). snd a = Poll \<longrightarrow>
            t0 + interval_ms (cameraStatusPollingSeconds opts) \<le> fst a
            \<and> fst a - interval_ms (cameraStatusPollingSeconds opts) \<in> set (updateReceivedAt s)
            \<and> (\<forall>r \<in> set (updateReceivedAt s).
                  r \<le> fst a - interval_ms (cameraStatusPollingSeconds opts) \<or> fst a \<le> r)"
    unfolding poll_inv_def sec by blast
  from a b c show ?thesis by (intro conjI)
qed

theorem periodic_cycle_start_witness:
  "\<exists>s. run [StatusTimer, SnapshotSettled 1200 0 None, StatusTimer]
            (subscribed (example_options None (Some 1) None) [front_camera] 0) = Some s
       \<and> (2200, Poll) \<in> set (snapshotFetches s)
       \<and> 1200 \<in> set (updateReceivedAt s)
       \<and> statusDebounce (subscribed (example_options None (Some 1) None) [front_camera] 0) = Some 1000"
proof -
  let ?o = "example_options None (Some 1) None"
  let ?s0 = "subscribed ?o [front_camera] 0"
  have tr: "truthy_number (cameraStatusPollingSeconds ?o)"
    by (simp add: example_options_def truthy_number_def)
  have l: "listenForCameraUpdates ?o [front_camera] 0 = Some ?s0"
    by (simp add: listenForCameraUpdates_def)
  have d: "interval_ms (cameraStatusPollingSeconds ?o) = 1000"
    by (simp add: example_options_def interval_ms_def)
  have "\<exists>s. run [StatusTimer, SnapshotSettled 1200 0 None, StatusTimer] ?s0 = Some s
          \<and> (2200, Poll) \<in> set (snapshotFetches s)"
    by (simp add: eval_defs)
  then obtain s where r: "run [StatusTimer, SnapshotSettled 1200 0 None, StatusTimer] ?s0 = Some s"
    and m: "(2200, Poll) \<in> set (snapshotFetches s)"
    by blast
  note t = periodic_cycle_start [OF tr l r, unfolded d]
  from t m have "2200 - 1000 \<in> set (updateReceivedAt s)" by fastforce
  then have "1200 \<in> set (updateReceivedAt s)" by simp
  moreover from t have "statusDebounce ?s0 = Some 1000" by simp
  ultimately show ?thesis using r m by blast
qed

theorem periodic_cycle_start_counterexample:
  "snapshotFetches (subscribed (example_options None (Some 1) None) [front_camera] 0) = []
   \<and> map_option snapshotFetches
       (run [StatusTimer] (subscribed (example_options None (Some 1) None) [front_camera] 0))
     = Some [(1000, Poll)]"
  by (simp add: subscribed_def example_options_def truthy_number_def on_time_def not_overdue_def
      admit_trigger_def on_status_timer_def onUpdateReceived_next_def
      interval_ms_def Let_def)

subsection \<open>Failed fetches\<close>








lemma polling_stopped_step:
  assumes "statusDebounce s = None" and "statusSubscribed s = None"
    and "step s e = Some s'" and "\<forall>t. e \<noteq> RequestUpdate t"
  shows "statusDebounce s' = None \<and> statusSubscribed s' = None
     \<and> snapshotFetches s' = snapshotFetches s"
  using assms(3,1,2,4)
  by (elim step_cases)
     (auto simp: on_status_timer_def on_snapshot_settled_def on_dings_timer_def
        on_dings_settled_def Let_def split: option.splits)

lemma polling_stopped:
  assumes "run evs s = Some s'" and "statusDebounce s = None" and "statusSubscribed s = None"
    and "\<forall>e \<in> set evs. \<forall>t. e \<noteq> RequestUpdate t"
  shows "snapshotFetches s' = snapshotFetches s"
  using assms
proof (induction evs arbitrary: s)
  case Nil
  then show ?case by simp
next
  case (Cons e es)
  then obtain s1 where s1: "step s e = Some s1" "run es s1 = Some s'"
    by (auto split: option.splits)
  from Cons.prems(4) have e: "\<forall>t. e \<noteq> RequestUpdate t" and es: "\<forall>e \<in> set es. \<forall>t. e \<noteq> RequestUpdate t"
    by simp_all
  from polling_stopped_step [OF Cons.prems(2,3) s1(1) e]
  have x: "statusDebounce s1 = None" "statusSubscribed s1 = None" "snapshotFetches s1 = snapshotFetches s"
    by simp_all
  from Cons.IH [OF s1(2) x(1,2) es] x(3) show ?case by simp
qed






end
